theory Spec2Isabelle
  imports Complex_Main
begin

section \<open>Errors\<close>

text \<open>
  The exceptions a run of \<^verbatim>\<open>chapter4/convergence.ipynb\<close> can end in, as values.
  \<open>ValueError\<close> is what NumPy raises for operands that cannot be broadcast together and for
  the maximum of a zero-size array, \<open>IndexError\<close> for an index outside an array,
  \<open>ZeroDivisionError\<close> is Python's for \<^verbatim>\<open>1./0\<close> and \<open>OverflowError\<close> for an \<^verbatim>\<open>int\<close> too large
  to convert to \<^verbatim>\<open>float\<close>, and \<open>LibraryError\<close> stands for any exception that leaves a call
  into the finite-element library.  The last three are the error kinds the specification
  names; no line of the notebook raises them.
\<close>

datatype error =
    ValueError
  | IndexError
  | ZeroDivisionError
  | OverflowError
  | LibraryError string
  | UnsupportedExactRepresentation
  | DegenerateSample
  | UnorderedSampleSequence

section \<open>NumPy scalars and one-dimensional arrays\<close>

text \<open>
  A \<^verbatim>\<open>float64\<close> is a finite value, the negative zero, an infinity or NaN; \<open>Fin 0\<close> is the
  positive zero.  NumPy's array arithmetic never raises on such values (it warns and
  yields \<open>inf\<close> or \<open>nan\<close>).
\<close>

datatype npfloat = Fin real | NZero | PInf | NInf | NaN

text \<open>
  Rounding to \<^verbatim>\<open>float64\<close>.  The finite values are the integer multiples \<open>m * 2\<^sup>e\<close> with
  \<open>\<bar>m\<bar> < 2\<^sup>5\<^sup>3\<close> and \<open>-1074 \<le> e\<close> below \<open>2\<^sup>1\<^sup>0\<^sup>2\<^sup>4\<close>.  A real is rounded to the nearest of them
  at the spacing of its binade (the spacing \<open>2\<^sup>-\<^sup>1\<^sup>0\<^sup>7\<^sup>4\<close> of the subnormal values at the
  least), a tie to the even multiple; from \<open>2\<^sup>1\<^sup>0\<^sup>2\<^sup>4\<close> on the result is an infinity, and a
  negative value that rounds to zero gives the negative zero.
\<close>

definition ulp_exponent :: "real \<Rightarrow> int" where
  "ulp_exponent x = max (\<lfloor>log 2 \<bar>x\<bar>\<rfloor> - 52) (- 1074)"

definition nearest_even :: "real \<Rightarrow> int" where
  "nearest_even y =
     (let f = \<lfloor>y\<rfloor> in
      if y - of_int f < 1 / 2 then f
      else if 1 / 2 < y - of_int f then f + 1
      else if even f then f else f + 1)"

definition round64 :: "real \<Rightarrow> npfloat" where
  "round64 x =
     (if x = 0 then Fin 0
      else let e = ulp_exponent x;
               y = of_int (nearest_even (x / 2 powi e)) * 2 powi e
           in if 2 ^ 1024 \<le> \<bar>y\<bar> then (if 0 < x then PInf else NInf)
              else if y = 0 \<and> x < 0 then NZero
              else Fin y)"

text \<open>The real value of a finite \<^verbatim>\<open>float64\<close>.\<close>

fun np_value :: "npfloat \<Rightarrow> real option" where
  "np_value (Fin x) = Some x"
| "np_value NZero = Some 0"
| "np_value _ = None"


text \<open>
  \<^verbatim>\<open>a / b\<close> on \<^verbatim>\<open>float64\<close>: NaN for \<open>0 / 0\<close> and \<open>inf / inf\<close>, an infinity or a zero with the
  sign of the quotient where an operand is an infinity or a zero, and the rounded
  quotient otherwise.
\<close>

fun np_negative :: "npfloat \<Rightarrow> bool" where
  "np_negative (Fin x) = (x < 0)"
| "np_negative NZero = True"
| "np_negative PInf = False"
| "np_negative NInf = True"
| "np_negative NaN = False"

fun np_is_zero :: "npfloat \<Rightarrow> bool" where
  "np_is_zero (Fin x) = (x = 0)"
| "np_is_zero NZero = True"
| "np_is_zero _ = False"

fun np_is_inf :: "npfloat \<Rightarrow> bool" where
  "np_is_inf PInf = True"
| "np_is_inf NInf = True"
| "np_is_inf _ = False"

fun finite_value :: "npfloat \<Rightarrow> real" where
  "finite_value (Fin x) = x"
| "finite_value _ = 0"

definition signed_zero :: "bool \<Rightarrow> npfloat" where
  "signed_zero s = (if s then NZero else Fin 0)"

definition signed_inf :: "bool \<Rightarrow> npfloat" where
  "signed_inf s = (if s then NInf else PInf)"

definition np_div :: "npfloat \<Rightarrow> npfloat \<Rightarrow> npfloat" where
  "np_div a b =
     (if a = NaN \<or> b = NaN then NaN
      else if (np_is_inf a \<and> np_is_inf b) \<or> (np_is_zero a \<and> np_is_zero b) then NaN
      else if np_is_inf a \<or> np_is_zero b then signed_inf (np_negative a \<noteq> np_negative b)
      else if np_is_inf b \<or> np_is_zero a then signed_zero (np_negative a \<noteq> np_negative b)
      else round64 (finite_value a / finite_value b))"

text \<open>
  \<^verbatim>\<open>np.log\<close>: \<open>-inf\<close> at either zero, \<open>nan\<close> below zero.  The logarithm of a positive finite
  value is taken correctly rounded; the platform's may differ from that in the last
  place.
\<close>

definition np_log :: "npfloat \<Rightarrow> npfloat" where
  "np_log a =
     (case a of
        Fin x \<Rightarrow> if x = 0 then NInf else if x < 0 then NaN else round64 (ln x)
      | NZero \<Rightarrow> NInf
      | PInf \<Rightarrow> PInf
      | NInf \<Rightarrow> NaN
      | NaN \<Rightarrow> NaN)"


text \<open>
  \<^verbatim>\<open>np.sqrt\<close>: \<open>nan\<close> below zero, each zero and \<open>inf\<close> kept, and the rounded square root
  otherwise.
\<close>

definition np_sqrt :: "npfloat \<Rightarrow> npfloat" where
  "np_sqrt a =
     (case a of
        Fin x \<Rightarrow> if x < 0 then NaN else round64 (sqrt x)
      | NZero \<Rightarrow> NZero
      | PInf \<Rightarrow> PInf
      | NInf \<Rightarrow> NaN
      | NaN \<Rightarrow> NaN)"

text \<open>
  \<^verbatim>\<open>a + b\<close> on \<^verbatim>\<open>float64\<close>, which is also the sum \<^verbatim>\<open>MPI.SUM\<close> takes: NaN for \<open>inf + -inf\<close>, an
  infinite operand kept, the negative zero for \<open>-0 + -0\<close>, the positive zero for every
  other sum that is exactly zero, and the rounded sum otherwise.
\<close>

definition np_add :: "npfloat \<Rightarrow> npfloat \<Rightarrow> npfloat" where
  "np_add a b =
     (if a = NaN \<or> b = NaN then NaN
      else if np_is_inf a then (if np_is_inf b \<and> a \<noteq> b then NaN else a)
      else if np_is_inf b then b
      else if a = NZero \<and> b = NZero then NZero
      else round64 (finite_value a + finite_value b))"

text \<open>
  Python's \<^verbatim>\<open>a / n\<close> for a \<^verbatim>\<open>float\<close> and an \<^verbatim>\<open>int\<close>: the \<^verbatim>\<open>int\<close> is converted to the nearest
  \<^verbatim>\<open>float\<close>, which raises where that is out of range, and a zero divisor raises.
\<close>

definition float_of_int :: "int \<Rightarrow> error + npfloat" where
  "float_of_int n =
     (case round64 (of_int n) of
        PInf \<Rightarrow> Inl OverflowError
      | NInf \<Rightarrow> Inl OverflowError
      | y \<Rightarrow> Inr y)"

definition py_truediv :: "npfloat \<Rightarrow> int \<Rightarrow> error + npfloat" where
  "py_truediv a n =
     (case float_of_int n of
        Inl e \<Rightarrow> Inl e
      | Inr b \<Rightarrow> if np_is_zero b then Inl ZeroDivisionError else Inr (np_div a b))"

text \<open>\<^verbatim>\<open>a[i] = v\<close> on a one-dimensional array, for an index that is not negative.\<close>

definition setitem :: "'a list \<Rightarrow> nat \<Rightarrow> 'a \<Rightarrow> error + 'a list" where
  "setitem a i v = (if i < length a then Inr (a[i := v]) else Inl IndexError)"

text \<open>
  An elementwise binary operation on two one-dimensional arrays, with NumPy's
  broadcasting: equal lengths go elementwise, a length-one operand is stretched, and
  anything else raises \<open>ValueError\<close>.
\<close>

definition np_binop :: "('a \<Rightarrow> 'a \<Rightarrow> 'b) \<Rightarrow> 'a list \<Rightarrow> 'a list \<Rightarrow> error + 'b list" where
  "np_binop f xs ys =
     (if length xs = length ys then Inr (map2 f xs ys)
      else if length xs = 1 then Inr (map (f (hd xs)) ys)
      else if length ys = 1 then Inr (map (\<lambda>x. f x (hd ys)) xs)
      else Inl ValueError)"

section \<open>The rate estimator\<close>

text \<open>
  \<^verbatim>\<open>rates = np.log(Es[1:]/Es[:-1])/np.log(hs[1:]/hs[:-1])\<close>.
  The slice \<^verbatim>\<open>a[1:]\<close> is \<open>drop 1 a\<close> and \<^verbatim>\<open>a[:-1]\<close> is \<open>butlast a\<close>, both empty on an
  empty array.
\<close>

definition rates :: "npfloat list \<Rightarrow> npfloat list \<Rightarrow> error + npfloat list" where
  "rates Es hs =
     (case np_binop np_div (drop 1 Es) (butlast Es) of
        Inl e \<Rightarrow> Inl e
      | Inr qE \<Rightarrow>
          (case np_binop np_div (drop 1 hs) (butlast hs) of
             Inl e \<Rightarrow> Inl e
           | Inr qh \<Rightarrow> np_binop np_div (map np_log qE) (map np_log qh)))"

text \<open>The rate between samples \<open>i\<close> and \<open>i + 1\<close>, as the array expression computes it.\<close>

definition rate_at :: "npfloat list \<Rightarrow> npfloat list \<Rightarrow> nat \<Rightarrow> npfloat" where
  "rate_at Es hs i =
     np_div (np_log (np_div (Es ! Suc i) (Es ! i))) (np_log (np_div (hs ! Suc i) (hs ! i)))"

section \<open>The finite-element library\<close>

text \<open>
  The notebook computes nothing itself but the error norms and the rates: meshes, spaces,
  interpolation, assembly and the linear solve belong to DOLFINx, UFL, PETSc and MPI.
  Their data are modelled by records and their functions by the fields of a record
  \<open>library\<close> that every function of the notebook takes as its first argument.
\<close>

type_synonym point = "real \<times> real"

text \<open>A mesh of the unit square, and the number of processes of its communicator.\<close>

record mesh =
  comm_size :: nat
  nx :: int
  ny :: int

text \<open>
  A function space: what \<^verbatim>\<open>V.mesh\<close>, \<^verbatim>\<open>V.ufl_element().family()\<close> and
  \<^verbatim>\<open>V.ufl_element().degree()\<close> read.
\<close>

record function_space =
  mesh :: mesh
  family :: string
  degree :: int

text \<open>
  A \<^verbatim>\<open>dolfinx.fem.Function\<close>: its space and \<^verbatim>\<open>x.array\<close>, the degree-of-freedom
  coefficients, one array for each process.  Functions are objects: the store holds
  them, a variable holds an address.  A coefficient is a finite \<^verbatim>\<open>float64\<close>, written as the
  real number it is.  The notebook subtracts coefficients and takes absolute values and
  maxima of the differences; the difference of two coefficients is taken as their real
  difference, which is zero exactly when the \<^verbatim>\<open>float64\<close> difference is.  The scalars that
  the assembly of an integral returns are \<^verbatim>\<open>float64\<close> values with their infinities, zeros
  and NaN.
\<close>

record fem_function =
  function_space :: function_space
  x_array :: "real list list"

type_synonym addr = nat

type_synonym store = "fem_function list"

text \<open>
  The UFL expression trees the notebook builds.  Python numbers enter a tree as
  \<^verbatim>\<open>FloatValue\<close> and \<^verbatim>\<open>IntValue\<close> nodes; \<^verbatim>\<open>-a\<close> is the product \<^verbatim>\<open>-1 * a\<close>.
\<close>

datatype ufl_expr =
    SpatialCoordinate mesh
  | Indexed ufl_expr nat
  | FloatValue real
  | IntValue int
  | Product ufl_expr ufl_expr
  | Cos ufl_expr
  | Div ufl_expr
  | Grad ufl_expr

definition ufl_neg :: "ufl_expr \<Rightarrow> ufl_expr" where
  "ufl_neg a = Product (IntValue (- 1)) a"

text \<open>
  The Python objects handed around as exact solution: a UFL expression (an instance of
  \<^verbatim>\<open>ufl.core.expr.Expr\<close>), a compiled \<^verbatim>\<open>dolfinx.fem.Expression\<close> with its evaluation
  points, a function of the coordinates, or any other object (named by its \<^verbatim>\<open>repr\<close>).
\<close>

datatype pyobj =
    Expr ufl_expr
  | Expression ufl_expr "point list"
  | Callable "point \<Rightarrow> real"
  | Other string

text \<open>What \<^verbatim>\<open>Function.interpolate\<close> is given: another function or an object.\<close>

datatype interpolant = FunctionValue fem_function | Object pyobj

text \<open>The integrand of \<^verbatim>\<open>form(ufl.inner(f, g) * ufl.dx)\<close>, over two functions of the store.\<close>

datatype form = Inner_dx addr addr

record library =
  world_size :: nat
    \<comment> \<open>the size of \<^verbatim>\<open>MPI.COMM_WORLD\<close>\<close>
  unit_square_error :: "int \<Rightarrow> int \<Rightarrow> error option"
    \<comment> \<open>the exception of \<^verbatim>\<open>create_unit_square\<close>, if it raises\<close>
  function_space_error :: "mesh \<Rightarrow> string \<Rightarrow> int \<Rightarrow> error option"
    \<comment> \<open>the exception of \<^verbatim>\<open>FunctionSpace\<close>, if it raises\<close>
  dof_count :: "function_space \<Rightarrow> nat \<Rightarrow> nat"
    \<comment> \<open>the length of \<^verbatim>\<open>x.array\<close> on a process\<close>
  element_points :: "function_space \<Rightarrow> point list"
    \<comment> \<open>\<^verbatim>\<open>V.element.interpolation_points\<close>\<close>
  dof_values :: "function_space \<Rightarrow> interpolant \<Rightarrow> error + (nat \<Rightarrow> nat \<Rightarrow> real)"
    \<comment> \<open>\<^verbatim>\<open>Function.interpolate\<close>: the exception, or the coefficient of each process and index\<close>
  inner_dx :: "fem_function \<Rightarrow> fem_function \<Rightarrow> nat \<Rightarrow> npfloat"
    \<comment> \<open>\<^verbatim>\<open>assemble_scalar\<close> of \<^verbatim>\<open>inner(f, g) * dx\<close> on a process\<close>
  lu_solve :: "function_space \<Rightarrow> ufl_expr \<Rightarrow> fem_function \<Rightarrow> error + (nat \<Rightarrow> nat \<Rightarrow> real)"
    \<comment> \<open>the Poisson problem with right-hand side and boundary values, solved by LU\<close>

definition create_unit_square :: "library \<Rightarrow> int \<Rightarrow> int \<Rightarrow> error + mesh" where
  "create_unit_square lib n m =
     (case unit_square_error lib n m of
        Some e \<Rightarrow> Inl e
      | None \<Rightarrow> Inr \<lparr>comm_size = world_size lib, nx = n, ny = m\<rparr>)"

definition FunctionSpace :: "library \<Rightarrow> mesh \<Rightarrow> string \<times> int \<Rightarrow> error + function_space" where
  "FunctionSpace lib msh el =
     (case function_space_error lib msh (fst el) (snd el) of
        Some e \<Rightarrow> Inl e
      | None \<Rightarrow> Inr \<lparr>mesh = msh, family = fst el, degree = snd el\<rparr>)"

text \<open>\<^verbatim>\<open>Function(V)\<close>: a new object, all coefficients zero.\<close>

definition zeros :: "library \<Rightarrow> function_space \<Rightarrow> fem_function" where
  "zeros lib V =
     \<lparr>function_space = V,
      x_array = map (\<lambda>r. replicate (dof_count lib V r) 0) [0..<comm_size (mesh V)]\<rparr>"

definition Function :: "library \<Rightarrow> function_space \<Rightarrow> store \<Rightarrow> addr \<times> store" where
  "Function lib V \<sigma> = (length \<sigma>, \<sigma> @ [zeros lib V])"

text \<open>\<^verbatim>\<open>u.interpolate(src)\<close> overwrites the coefficients of \<open>u\<close> in place.\<close>

definition set_values :: "(nat \<Rightarrow> nat \<Rightarrow> real) \<Rightarrow> fem_function \<Rightarrow> fem_function" where
  "set_values c u =
     u\<lparr>x_array := map (\<lambda>r. map (c r) [0..<length (x_array u ! r)]) [0..<length (x_array u)]\<rparr>"

definition interpolate :: "library \<Rightarrow> addr \<Rightarrow> interpolant \<Rightarrow> store \<Rightarrow> error + store" where
  "interpolate lib u src \<sigma> =
     (case dof_values lib (function_space (\<sigma> ! u)) src of
        Inl e \<Rightarrow> Inl e
      | Inr c \<Rightarrow> Inr (\<sigma>[u := set_values c (\<sigma> ! u)]))"

text \<open>
  The exact solution goes into a function \<open>u\<close> the way both error functions do it: a UFL
  expression is compiled to an \<^verbatim>\<open>Expression\<close> at the interpolation points of the space
  first, every other object is handed to \<^verbatim>\<open>interpolate\<close> as it is.
\<close>

definition interpolate_exact :: "library \<Rightarrow> addr \<Rightarrow> pyobj \<Rightarrow> store \<Rightarrow> error + store" where
  "interpolate_exact lib u u_ex \<sigma> =
     (case u_ex of
        Expr e \<Rightarrow>
          interpolate lib u (Object (Expression e (element_points lib (function_space (\<sigma> ! u))))) \<sigma>
      | _ \<Rightarrow> interpolate lib u (Object u_ex) \<sigma>)"

text \<open>
  One operation on every process.  All the functions of a run live on one communicator,
  so the two lists have one entry for each of its processes; an exception on any process
  ends the run.
\<close>

fun rankwise :: "('a \<Rightarrow> 'b \<Rightarrow> error + 'c) \<Rightarrow> 'a list \<Rightarrow> 'b list \<Rightarrow> error + 'c list" where
  "rankwise f (a # as) (b # bs) =
     (case f a b of
        Inl e \<Rightarrow> Inl e
      | Inr c \<Rightarrow> (case rankwise f as bs of Inl e \<Rightarrow> Inl e | Inr cs \<Rightarrow> Inr (c # cs)))"
| "rankwise f _ _ = Inr []"

text \<open>
  \<^verbatim>\<open>comm.allreduce(v, op)\<close>, from the values of all processes.  A communicator has at least
  one process; a reduction over none is an error of the library.
\<close>

definition allreduce :: "('a \<Rightarrow> 'a \<Rightarrow> 'a) \<Rightarrow> 'a list \<Rightarrow> error + 'a" where
  "allreduce f vs =
     (case vs of [] \<Rightarrow> Inl (LibraryError ''empty communicator'') | v # r \<Rightarrow> Inr (fold f r v))"

text \<open>\<^verbatim>\<open>np.max\<close>, which raises on an array without entries.\<close>

definition np_max :: "real list \<Rightarrow> error + real" where
  "np_max xs = (case xs of [] \<Rightarrow> Inl ValueError | x # r \<Rightarrow> Inr (fold max r x))"

text \<open>\<^verbatim>\<open>target[:] = v\<close>: the value is broadcast to the length of the target.\<close>

definition setitem_all :: "real list \<Rightarrow> real list \<Rightarrow> error + real list" where
  "setitem_all target v =
     (if length v = length target then Inr v
      else if length v = 1 then Inr (replicate (length target) (hd v))
      else Inl ValueError)"

definition assemble_scalar :: "library \<Rightarrow> form \<Rightarrow> store \<Rightarrow> npfloat list" where
  "assemble_scalar lib a \<sigma> =
     (case a of Inner_dx f g \<Rightarrow>
        map (inner_dx lib (\<sigma> ! f) (\<sigma> ! g)) [0..<comm_size (mesh (function_space (\<sigma> ! f)))])"

section \<open>The manufactured problem\<close>

text \<open>
  \<^verbatim>\<open>u_ex(mod)\<close> with \<^verbatim>\<open>mod = np\<close> is a function of the coordinates, with \<^verbatim>\<open>mod = ufl\<close> it
  builds an expression tree from the coordinates it is given.  \<^verbatim>\<open>ufl.pi\<close> is the Python
  \<^verbatim>\<open>float\<close> \<^verbatim>\<open>math.pi\<close>, so \<^verbatim>\<open>2*ufl.pi\<close> is one number before UFL sees it, and the tree has a
  single \<^verbatim>\<open>FloatValue\<close> in each factor.  The function of the coordinates is what an
  \<^verbatim>\<open>interpolate\<close> of the library calls; it is taken as the function it approximates.
\<close>

definition float_pi :: real where
  "float_pi = 884279719003555 / 2 ^ 48"

definition u_numpy :: "point \<Rightarrow> real" where
  "u_numpy x = cos (2 * pi * fst x) * cos (2 * pi * snd x)"

definition u_ufl :: "ufl_expr \<Rightarrow> ufl_expr" where
  "u_ufl x =
     Product (Cos (Product (FloatValue (2 * float_pi)) (Indexed x 0)))
             (Cos (Product (FloatValue (2 * float_pi)) (Indexed x 1)))"

text \<open>
  \<^verbatim>\<open>LinearProblem(a, L, bcs, petsc_options).solve()\<close>: the solution is a new function of
  \<open>V\<close>.  The bilinear form, the boundary facets and the solver options are fixed in
  \<^verbatim>\<open>solve_poisson\<close>; what varies is the space, the right-hand side and the boundary data.
\<close>

definition LinearProblem_solve ::
    "library \<Rightarrow> function_space \<Rightarrow> ufl_expr \<Rightarrow> addr \<Rightarrow> store \<Rightarrow> error + (addr \<times> store)" where
  "LinearProblem_solve lib V f u_bc \<sigma> =
     (case Function lib V \<sigma> of (uh, \<sigma>1) \<Rightarrow>
        (case lu_solve lib V f (\<sigma>1 ! u_bc) of
           Inl e \<Rightarrow> Inl e
         | Inr c \<Rightarrow> Inr (uh, \<sigma>1[uh := set_values c (\<sigma>1 ! uh)])))"

definition solve_poisson :: "library \<Rightarrow> int \<Rightarrow> int \<Rightarrow> store \<Rightarrow> error + ((addr \<times> pyobj) \<times> store)" where
  "solve_poisson lib N p \<sigma> =
     (case create_unit_square lib N N of
        Inl e \<Rightarrow> Inl e
      | Inr msh \<Rightarrow>
          (let x = SpatialCoordinate msh;
               f = ufl_neg (Div (Grad (u_ufl x)))
           in case FunctionSpace lib msh (''CG'', p) of
                Inl e \<Rightarrow> Inl e
              | Inr V \<Rightarrow>
                  (case Function lib V \<sigma> of (u_bc, \<sigma>1) \<Rightarrow>
                     (case interpolate lib u_bc (Object (Callable u_numpy)) \<sigma>1 of
                        Inl e \<Rightarrow> Inl e
                      | Inr \<sigma>2 \<Rightarrow>
                          (case LinearProblem_solve lib V f u_bc \<sigma>2 of
                             Inl e \<Rightarrow> Inl e
                           | Inr (uh, \<sigma>3) \<Rightarrow> Inr ((uh, Expr (u_ufl x)), \<sigma>3))))))"

section \<open>The error norms\<close>

text \<open>
  \<^verbatim>\<open>error_L2(uh, u_ex, degree_raise=3)\<close>.  The function \<open>uh\<close> is an address of the store;
  the three functions of the higher-order space are new objects.
\<close>

definition degree_raise_default :: int where
  "degree_raise_default = 3"

definition error_L2 :: "library \<Rightarrow> addr \<Rightarrow> pyobj \<Rightarrow> int \<Rightarrow> store \<Rightarrow> error + (npfloat \<times> store)" where
  "error_L2 lib uh u_ex degree_raise \<sigma> =
     (let p = degree (function_space (\<sigma> ! uh));
          fam = family (function_space (\<sigma> ! uh));
          msh = mesh (function_space (\<sigma> ! uh))
      in case FunctionSpace lib msh (fam, p + degree_raise) of
           Inl e \<Rightarrow> Inl e
         | Inr W \<Rightarrow>
             (case Function lib W \<sigma> of (u_W, \<sigma>1) \<Rightarrow>
                (case interpolate lib u_W (FunctionValue (\<sigma>1 ! uh)) \<sigma>1 of
                   Inl e \<Rightarrow> Inl e
                 | Inr \<sigma>2 \<Rightarrow>
                     (case Function lib W \<sigma>2 of (u_ex_W, \<sigma>3) \<Rightarrow>
                        (case interpolate_exact lib u_ex_W u_ex \<sigma>3 of
                           Inl e \<Rightarrow> Inl e
                         | Inr \<sigma>4 \<Rightarrow>
                             (case Function lib W \<sigma>4 of (e_W, \<sigma>5) \<Rightarrow>
                                (case rankwise (np_binop (-))
                                        (x_array (\<sigma>5 ! u_W)) (x_array (\<sigma>5 ! u_ex_W)) of
                                   Inl e \<Rightarrow> Inl e
                                 | Inr d \<Rightarrow>
                                     (case rankwise setitem_all (x_array (\<sigma>5 ! e_W)) d of
                                        Inl e \<Rightarrow> Inl e
                                      | Inr a \<Rightarrow>
                                          (let \<sigma>6 = \<sigma>5[e_W := (\<sigma>5 ! e_W)\<lparr>x_array := a\<rparr>];
                                               error_local = assemble_scalar lib (Inner_dx e_W e_W) \<sigma>6
                                           in case allreduce np_add error_local of
                                                Inl e \<Rightarrow> Inl e
                                              | Inr error_global \<Rightarrow>
                                                  Inr (np_sqrt error_global, \<sigma>6))))))))))"

text \<open>\<^verbatim>\<open>error_infinity(u_h, u_ex)\<close>.\<close>

definition abs_difference_max :: "real list \<Rightarrow> real list \<Rightarrow> error + real" where
  "abs_difference_max a b =
     (case np_binop (-) a b of Inl e \<Rightarrow> Inl e | Inr d \<Rightarrow> np_max (map abs d))"

definition error_infinity :: "library \<Rightarrow> addr \<Rightarrow> pyobj \<Rightarrow> store \<Rightarrow> error + (real \<times> store)" where
  "error_infinity lib u_h u_ex \<sigma> =
     (case Function lib (function_space (\<sigma> ! u_h)) \<sigma> of (u_ex_V, \<sigma>1) \<Rightarrow>
        (case interpolate_exact lib u_ex_V u_ex \<sigma>1 of
           Inl e \<Rightarrow> Inl e
         | Inr \<sigma>2 \<Rightarrow>
             (case rankwise abs_difference_max (x_array (\<sigma>2 ! u_h)) (x_array (\<sigma>2 ! u_ex_V)) of
                Inl e \<Rightarrow> Inl e
              | Inr error_max_local \<Rightarrow>
                  (case allreduce max error_max_local of
                     Inl e \<Rightarrow> Inl e
                   | Inr error_max \<Rightarrow> Inr (error_max, \<sigma>2)))))"

section \<open>The convergence studies\<close>

text \<open>
  The module-level variables the study cells assign, and the store.  What the cells
  print on process 0 is left out.
\<close>

record notebook =
  nb_heap :: store
  nb_Es :: "npfloat list"
  nb_hs :: "npfloat list"
  nb_uh :: "addr option"
  nb_u_ex :: "pyobj option"

type_synonym solver = "int \<Rightarrow> store \<Rightarrow> error + ((addr \<times> pyobj) \<times> store)"

type_synonym norm = "addr \<Rightarrow> store \<Rightarrow> error + (npfloat \<times> store)"

text \<open>
  The two assignments \<^verbatim>\<open>Es[i] = E\<close> and \<^verbatim>\<open>hs[i] = 1./N\<close> that end the body of the loop, on the
  pair of the arrays \<open>Es\<close> and \<open>hs\<close>.
\<close>

definition store_sample ::
    "npfloat list \<times> npfloat list \<Rightarrow> nat \<Rightarrow> npfloat \<Rightarrow> int \<Rightarrow> error + (npfloat list \<times> npfloat list)" where
  "store_sample Eh i E N =
     (case setitem (fst Eh) i E of
        Inl e \<Rightarrow> Inl e
      | Inr Es' \<Rightarrow>
          (case py_truediv (Fin 1) N of
             Inl e \<Rightarrow> Inl e
           | Inr h \<Rightarrow>
               (case setitem (snd Eh) i h of
                  Inl e \<Rightarrow> Inl e
                | Inr hs' \<Rightarrow> Inr (Es', hs'))))"

text \<open>
  The body of \<^verbatim>\<open>for i, N in enumerate(Ns)\<close>, for a solver and an error norm:
  \<^verbatim>\<open>uh, u_ex = solve(N)\<close>, \<^verbatim>\<open>Es[i] = norm(uh)\<close>, \<^verbatim>\<open>hs[i] = 1./Ns[i]\<close>, in this order; \<open>N\<close> is
  \<^verbatim>\<open>Ns[i]\<close>.
\<close>

fun convergence_loop :: "solver \<Rightarrow> norm \<Rightarrow> (nat \<times> int) list \<Rightarrow> notebook \<Rightarrow> error + notebook" where
  "convergence_loop solve nrm [] st = Inr st"
| "convergence_loop solve nrm ((i, N) # rest) st =
     (case solve N (nb_heap st) of
        Inl e \<Rightarrow> Inl e
      | Inr ((a, ue), \<sigma>1) \<Rightarrow>
          (case nrm a \<sigma>1 of
             Inl e \<Rightarrow> Inl e
           | Inr (E, \<sigma>2) \<Rightarrow>
               (case store_sample (nb_Es st, nb_hs st) i E N of
                  Inl e \<Rightarrow> Inl e
                | Inr (Es', hs') \<Rightarrow>
                    convergence_loop solve nrm rest
                      (st\<lparr>nb_heap := \<sigma>2, nb_uh := Some a, nb_u_ex := Some ue,
                          nb_Es := Es', nb_hs := hs'\<rparr>))))"

text \<open>
  \<^verbatim>\<open>Es = np.zeros(len(Ns))\<close>, \<^verbatim>\<open>hs = np.zeros(len(Ns))\<close>, then the loop.
\<close>

definition convergence_study :: "solver \<Rightarrow> norm \<Rightarrow> int list \<Rightarrow> notebook \<Rightarrow> error + notebook" where
  "convergence_study solve nrm Ns st =
     convergence_loop solve nrm (enumerate 0 Ns)
       (st\<lparr>nb_Es := replicate (length Ns) (Fin 0), nb_hs := replicate (length Ns) (Fin 0)\<rparr>)"

definition Ns :: "int list" where
  "Ns = [4, 8, 16, 32, 64]"

definition degrees :: "int list" where
  "degrees = [1, 2, 3, 4]"

text \<open>
  The two norms as the loops call them, both against \<^verbatim>\<open>u_numpy\<close>:
  \<^verbatim>\<open>error_L2(uh, u_numpy)\<close> (or with \<^verbatim>\<open>degree_raise=3\<close> written out) and
  \<^verbatim>\<open>error_infinity(uh, u_numpy)\<close>.
\<close>

definition norm_L2 :: "library \<Rightarrow> norm" where
  "norm_L2 lib a \<sigma> = error_L2 lib a (Callable u_numpy) degree_raise_default \<sigma>"

definition norm_infinity :: "library \<Rightarrow> norm" where
  "norm_infinity lib a \<sigma> =
     (case error_infinity lib a (Callable u_numpy) \<sigma> of
        Inl e \<Rightarrow> Inl e
      | Inr (E, \<sigma>') \<Rightarrow> Inr (Fin E, \<sigma>'))"

definition study_L2 :: "library \<Rightarrow> int \<Rightarrow> int list \<Rightarrow> notebook \<Rightarrow> error + notebook" where
  "study_L2 lib p = convergence_study (\<lambda>N. solve_poisson lib N p) (norm_L2 lib)"

definition study_infinity :: "library \<Rightarrow> int \<Rightarrow> int list \<Rightarrow> notebook \<Rightarrow> error + notebook" where
  "study_infinity lib p = convergence_study (\<lambda>N. solve_poisson lib N p) (norm_infinity lib)"

text \<open>
  \<^verbatim>\<open>for degree in degrees\<close>: the study of each degree and its rates, which the cell
  prints; the printed rate arrays are collected in order.
\<close>

fun degree_loop ::
    "(int \<Rightarrow> int list \<Rightarrow> notebook \<Rightarrow> error + notebook) \<Rightarrow> int list \<Rightarrow> notebook
      \<Rightarrow> error + (npfloat list list \<times> notebook)" where
  "degree_loop study [] st = Inr ([], st)"
| "degree_loop study (p # ps) st =
     (case study p Ns st of
        Inl e \<Rightarrow> Inl e
      | Inr st1 \<Rightarrow>
          (case rates (nb_Es st1) (nb_hs st1) of
             Inl e \<Rightarrow> Inl e
           | Inr rs \<Rightarrow>
               (case degree_loop study ps st1 of
                  Inl e \<Rightarrow> Inl e
                | Inr (out, st2) \<Rightarrow> Inr (rs # out, st2))))"

text \<open>
  The three study cells: the first study at degree one with its rates, and the two
  loops over the degrees.
\<close>

definition first_study :: "library \<Rightarrow> notebook \<Rightarrow> error + (npfloat list list \<times> notebook)" where
  "first_study lib = degree_loop (study_L2 lib) [1]"

definition L2_rate_study :: "library \<Rightarrow> notebook \<Rightarrow> error + (npfloat list list \<times> notebook)" where
  "L2_rate_study lib = degree_loop (study_L2 lib) degrees"

definition infinity_rate_study :: "library \<Rightarrow> notebook \<Rightarrow> error + (npfloat list list \<times> notebook)" where
  "infinity_rate_study lib = degree_loop (study_infinity lib) degrees"

section \<open>A small library to compute with\<close>

text \<open>
  A concrete library on one process, for evaluating the notebook on explicit inputs:
  every space has two degrees of freedom, the values at the points \<open>(0, 0)\<close> and \<open>(1, 0)\<close>;
  interpolation evaluates there, the integral of a product is the sum of the products of
  the coefficients, accumulated in \<^verbatim>\<open>float64\<close>, and the solve returns the boundary data.  Objects that are neither a
  function of the coordinates nor a compiled expression are refused with the library's
  own error.
\<close>

fun ufl_value :: "ufl_expr \<Rightarrow> point \<Rightarrow> real option" where
  "ufl_value (Indexed (SpatialCoordinate m) i) x = Some (if i = 0 then fst x else snd x)"
| "ufl_value (FloatValue c) x = Some c"
| "ufl_value (IntValue n) x = Some (of_int n)"
| "ufl_value (Product a b) x =
     (case ufl_value a x of None \<Rightarrow> None
      | Some va \<Rightarrow> (case ufl_value b x of None \<Rightarrow> None | Some vb \<Rightarrow> Some (va * vb)))"
| "ufl_value (Cos a) x = (case ufl_value a x of None \<Rightarrow> None | Some va \<Rightarrow> Some (cos va))"
| "ufl_value _ x = None"

definition two_nodes :: "point list" where
  "two_nodes = [(0, 0), (1, 0)]"

definition nodal_values :: "function_space \<Rightarrow> interpolant \<Rightarrow> error + (nat \<Rightarrow> nat \<Rightarrow> real)" where
  "nodal_values V src =
     (case src of
        FunctionValue f \<Rightarrow> Inr (\<lambda>r i. x_array f ! r ! i)
      | Object (Callable g) \<Rightarrow> Inr (\<lambda>r i. g (two_nodes ! i))
      | Object (Expression e X) \<Rightarrow>
          (if list_all (\<lambda>x. ufl_value e x \<noteq> None) X \<and> length X = 2
           then Inr (\<lambda>r i. the (ufl_value e (X ! i)))
           else Inl (LibraryError ''Expression''))
      | Object (Expr e) \<Rightarrow> Inl (LibraryError ''TypeError'')
      | Object (Other s) \<Rightarrow> Inl (LibraryError ''TypeError''))"

definition nodal_library :: library where
  "nodal_library =
     \<lparr>world_size = 1,
      unit_square_error = (\<lambda>n m. if n < 1 \<or> m < 1 then Some (LibraryError ''mesh'') else None),
      function_space_error = (\<lambda>msh fam p. if p < 1 then Some (LibraryError ''element'') else None),
      dof_count = (\<lambda>V r. 2),
      element_points = (\<lambda>V. two_nodes),
      dof_values = nodal_values,
      inner_dx = (\<lambda>f g r. fold np_add (map2 (\<lambda>a b. round64 (a * b)) (x_array f ! r) (x_array g ! r)) (Fin 0)),
      lu_solve = (\<lambda>V f u_bc. Inr (\<lambda>r i. x_array u_bc ! r ! i))\<rparr>"

section \<open>Notions used in the properties\<close>

text \<open>
  The coefficient arrays of a function of \<open>V\<close> whose coefficient on process \<open>r\<close> at index \<open>i\<close>
  is \<open>c r i\<close>: what \<^verbatim>\<open>interpolate\<close> leaves in a function made by \<^verbatim>\<open>Function(V)\<close>.
\<close>

definition coefficients :: "library \<Rightarrow> function_space \<Rightarrow> (nat \<Rightarrow> nat \<Rightarrow> real) \<Rightarrow> real list list" where
  "coefficients lib V c = map (\<lambda>r. map (c r) [0..<dof_count lib V r]) [0..<comm_size (mesh V)]"

text \<open>What the error functions hand to \<^verbatim>\<open>interpolate\<close> for an exact solution.\<close>

definition exact_interpolant :: "library \<Rightarrow> function_space \<Rightarrow> pyobj \<Rightarrow> interpolant" where
  "exact_interpolant lib V u_ex =
     (case u_ex of Expr e \<Rightarrow> Object (Expression e (element_points lib V)) | _ \<Rightarrow> Object u_ex)"

text \<open>
  The three functions \<^verbatim>\<open>error_L2\<close> creates in the space \<open>W\<close>, in the order of their
  creation: \<^verbatim>\<open>u_W\<close>, \<^verbatim>\<open>u_ex_W\<close> and \<^verbatim>\<open>e_W\<close>.
\<close>

definition L2_objects ::
    "library \<Rightarrow> function_space \<Rightarrow> (nat \<Rightarrow> nat \<Rightarrow> real) \<Rightarrow> (nat \<Rightarrow> nat \<Rightarrow> real) \<Rightarrow> fem_function list" where
  "L2_objects lib W c1 c2 =
     [\<lparr>function_space = W, x_array = coefficients lib W c1\<rparr>,
      \<lparr>function_space = W, x_array = coefficients lib W c2\<rparr>,
      \<lparr>function_space = W, x_array = map2 (map2 (-)) (coefficients lib W c1) (coefficients lib W c2)\<rparr>]"

text \<open>A store with one function, of a degree-one space on one process.\<close>

definition unit_space :: function_space where
  "unit_space = \<lparr>mesh = \<lparr>comm_size = 1, nx = 1, ny = 1\<rparr>, family = ''CG'', degree = 1\<rparr>"

definition sample_store :: store where
  "sample_store = [\<lparr>function_space = unit_space, x_array = [[3, 5]]\<rparr>]"




text \<open>An exception that some call into the library ends in.\<close>

definition library_raises :: "library \<Rightarrow> error \<Rightarrow> bool" where
  "library_raises lib e =
     ((\<exists>n m. unit_square_error lib n m = Some e) \<or>
      (\<exists>msh fam p. function_space_error lib msh fam p = Some e) \<or>
      (\<exists>V src. dof_values lib V src = Inl e) \<or>
      (\<exists>V f u_bc. lu_solve lib V f u_bc = Inl e))"

text \<open>The space three degrees above \<open>unit_space\<close>.\<close>

definition raised_space :: function_space where
  "raised_space = \<lparr>mesh = \<lparr>comm_size = 1, nx = 1, ny = 1\<rparr>, family = ''CG'', degree = 4\<rparr>"

text \<open>
  The values behind the store: what \<^verbatim>\<open>solve_poisson\<close> creates (the boundary function, the
  solution and the returned expression), and what the two norms return and create for a
  function \<open>f\<close>, none of which depends on the addresses.
\<close>

definition poisson_solution :: "library \<Rightarrow> int \<Rightarrow> int \<Rightarrow> error + (fem_function \<times> fem_function \<times> pyobj)" where
  "poisson_solution lib N p =
     (case create_unit_square lib N N of
        Inl e \<Rightarrow> Inl e
      | Inr msh \<Rightarrow>
          (case FunctionSpace lib msh (''CG'', p) of
             Inl e \<Rightarrow> Inl e
           | Inr V \<Rightarrow>
               (case dof_values lib V (Object (Callable u_numpy)) of
                  Inl e \<Rightarrow> Inl e
                | Inr c \<Rightarrow>
                    (case lu_solve lib V (ufl_neg (Div (Grad (u_ufl (SpatialCoordinate msh)))))
                            \<lparr>function_space = V, x_array = coefficients lib V c\<rparr> of
                       Inl e \<Rightarrow> Inl e
                     | Inr c' \<Rightarrow>
                         Inr (\<lparr>function_space = V, x_array = coefficients lib V c\<rparr>,
                              \<lparr>function_space = V, x_array = coefficients lib V c'\<rparr>,
                              Expr (u_ufl (SpatialCoordinate msh)))))))"

definition L2_value :: "library \<Rightarrow> fem_function \<Rightarrow> pyobj \<Rightarrow> int \<Rightarrow> error + (npfloat \<times> fem_function list)" where
  "L2_value lib f u_ex dr =
     (case FunctionSpace lib (mesh (function_space f))
             (family (function_space f), degree (function_space f) + dr) of
        Inl e \<Rightarrow> Inl e
      | Inr W \<Rightarrow>
          (case dof_values lib W (FunctionValue f) of
             Inl e \<Rightarrow> Inl e
           | Inr c1 \<Rightarrow>
               (case dof_values lib W (exact_interpolant lib W u_ex) of
                  Inl e \<Rightarrow> Inl e
                | Inr c2 \<Rightarrow>
                    (case allreduce np_add (map (inner_dx lib (L2_objects lib W c1 c2 ! 2) (L2_objects lib W c1 c2 ! 2))
                                          [0..<comm_size (mesh W)]) of
                       Inl e \<Rightarrow> Inl e
                     | Inr s \<Rightarrow> Inr (np_sqrt s, L2_objects lib W c1 c2)))))"

definition infinity_value :: "library \<Rightarrow> fem_function \<Rightarrow> pyobj \<Rightarrow> error + (real \<times> fem_function list)" where
  "infinity_value lib f u_ex =
     (case dof_values lib (function_space f) (exact_interpolant lib (function_space f) u_ex) of
        Inl e \<Rightarrow> Inl e
      | Inr c \<Rightarrow>
          (case rankwise abs_difference_max (x_array f) (coefficients lib (function_space f) c) of
             Inl e \<Rightarrow> Inl e
           | Inr ms \<Rightarrow>
               (case allreduce max ms of
                  Inl e \<Rightarrow> Inl e
                | Inr m \<Rightarrow>
                    Inr (m, [\<lparr>function_space = function_space f,
                              x_array = coefficients lib (function_space f) c\<rparr>]))))"

text \<open>The arrays \<open>Es\<close> and \<open>hs\<close> of a study, computed without a store.\<close>

fun samples_loop ::
    "(int \<Rightarrow> error + fem_function) \<Rightarrow> (fem_function \<Rightarrow> error + npfloat) \<Rightarrow> (nat \<times> int) list
      \<Rightarrow> npfloat list \<times> npfloat list \<Rightarrow> error + (npfloat list \<times> npfloat list)" where
  "samples_loop S G [] Eh = Inr Eh"
| "samples_loop S G ((i, N) # rest) Eh =
     (case S N of
        Inl e \<Rightarrow> Inl e
      | Inr f \<Rightarrow>
          (case G f of
             Inl e \<Rightarrow> Inl e
           | Inr E \<Rightarrow>
               (case store_sample Eh i E N of
                  Inl e \<Rightarrow> Inl e
                | Inr Eh' \<Rightarrow> samples_loop S G rest Eh')))"

definition samples :: "notebook \<Rightarrow> npfloat list \<times> npfloat list" where
  "samples st = (nb_Es st, nb_hs st)"

text \<open>A solver whose returned exact solution is replaced by the object \<open>X\<close>.\<close>

definition replace_exact :: "pyobj \<Rightarrow> solver \<Rightarrow> solver" where
  "replace_exact X solve N \<sigma> =
     (case solve N \<sigma> of Inl e \<Rightarrow> Inl e | Inr ((a, ue), \<sigma>') \<Rightarrow> Inr ((a, X), \<sigma>'))"

text \<open>Every variable of the notebook but \<^verbatim>\<open>u_ex\<close>.\<close>

definition observed :: "notebook \<Rightarrow> store \<times> npfloat list \<times> npfloat list \<times> addr option" where
  "observed st = (nb_heap st, nb_Es st, nb_hs st, nb_uh st)"

text \<open>The notebook before any cell has run, and the degree-one space on a two-by-two mesh.\<close>

definition empty_notebook :: notebook where
  "empty_notebook = \<lparr>nb_heap = [], nb_Es = [], nb_hs = [], nb_uh = None, nb_u_ex = None\<rparr>"

definition square2_space :: function_space where
  "square2_space = \<lparr>mesh = \<lparr>comm_size = 1, nx = 2, ny = 2\<rparr>, family = ''CG'', degree = 1\<rparr>"

section \<open>Properties of float64 arithmetic\<close>

lemma nearest_even_error: "\<bar>of_int (nearest_even y) - y\<bar> \<le> 1 / 2"
  unfolding nearest_even_def Let_def by (auto split: if_splits)

lemma nearest_even_of_int [simp]: "nearest_even (of_int j) = j"
  by (simp add: nearest_even_def)

lemma nearest_even_nonneg: "0 \<le> y \<Longrightarrow> 0 \<le> nearest_even y"
  unfolding nearest_even_def Let_def by (auto split: if_splits) 

lemma nearest_even_nonpos: "y \<le> 0 \<Longrightarrow> nearest_even y \<le> 0"
proof -
  assume y: "y \<le> 0"
  have e: "\<bar>of_int (nearest_even y) - y\<bar> \<le> 1 / 2" by (rule nearest_even_error)
  then have "of_int (nearest_even y) \<le> (1/2 :: real)" using y by linarith
  then have "of_int (nearest_even y) < (1::real)" by linarith
  then show ?thesis by linarith
qed


lemma two_powi_pos [simp]: "0 < (2::real) powi e"
  by (simp add: power_int_def)

lemma ulp_bound:
  assumes "x \<noteq> 0"
  shows "2 powi ulp_exponent x \<le> \<bar>x\<bar> / 2 ^ 52 \<or> ulp_exponent x = - 1074"
proof (cases "\<lfloor>log 2 \<bar>x\<bar>\<rfloor> - 52 \<le> - 1074")
  case True
  then show ?thesis by (simp add: ulp_exponent_def max_def)
next
  case False
  then have e: "ulp_exponent x = \<lfloor>log 2 \<bar>x\<bar>\<rfloor> - 52" by (simp add: ulp_exponent_def max_def)
  have "2 powr (of_int \<lfloor>log 2 \<bar>x\<bar>\<rfloor>) \<le> 2 powr (log 2 \<bar>x\<bar>)"
    by (intro powr_mono) simp_all
  also have "\<dots> = \<bar>x\<bar>" using assms by simp
  finally have a: "2 powr (of_int \<lfloor>log 2 \<bar>x\<bar>\<rfloor>) \<le> \<bar>x\<bar>" .
  have "(2::real) powi ulp_exponent x = 2 powr (of_int (ulp_exponent x))"
    by (simp add: powr_real_of_int')
  also have "\<dots> = 2 powr (of_int \<lfloor>log 2 \<bar>x\<bar>\<rfloor>) / 2 ^ 52"
    unfolding e by (simp add: powr_diff powr_realpow [symmetric])
  also have "\<dots> \<le> \<bar>x\<bar> / 2 ^ 52" using a by (simp add: divide_right_mono)
  finally show ?thesis by simp
qed

lemma round64_zero [simp]: "round64 0 = Fin 0"
  by (simp add: round64_def)

lemma log2_powi: "log 2 (2 powi k) = of_int k"
  by (simp add: powr_real_of_int' [symmetric] del: powr_real_of_int')

lemma floor_log2_less:
  assumes "0 < x" "x < 2 powi k"
  shows "\<lfloor>log 2 x\<rfloor> < k"
proof -
  have "log 2 x < log 2 (2 powi k)"
    using assms by (simp add: log_less_cancel_iff)
  then have "log 2 x < of_int k" by (simp only: log2_powi)
  then show ?thesis by linarith
qed

lemma round64_exact:
  assumes x: "x = of_int m * 2 powi k" and m: "\<bar>m\<bar> < 2 ^ 53" and k: "- 1074 \<le> k"
    and fin: "\<bar>x\<bar> < 2 ^ 1024"
  shows "round64 x = Fin x"
proof (cases "x = 0")
  case True
  then show ?thesis by simp
next
  case False
  define e where "e = ulp_exponent x"
  have ax: "\<bar>x\<bar> = of_int \<bar>m\<bar> * 2 powi k" by (simp add: x abs_mult)
  have "(of_int \<bar>m\<bar> :: real) < of_int (2 ^ 53)" using m by (simp only: of_int_less_iff)
  then have "(of_int \<bar>m\<bar> :: real) < 2 powi 53" by simp
  then have "of_int \<bar>m\<bar> * 2 powi k < 2 powi 53 * (2::real) powi k"
    by (intro mult_strict_right_mono) simp_all
  also have "\<dots> = 2 powi (53 + k)"
    by (simp add: power_int_add)
  finally have "\<bar>x\<bar> < 2 powi (53 + k)" unfolding ax .
  then have "\<lfloor>log 2 \<bar>x\<bar>\<rfloor> < 53 + k"
    using False by (intro floor_log2_less) simp_all
  then have ek: "e \<le> k" using k unfolding e_def ulp_exponent_def by linarith
  define d where "d = nat (k - e)"
  have kd: "k = e + int d" using ek by (simp add: d_def)
  have "x / 2 powi e = of_int m * (2 powi (e + int d) / 2 powi e)"
    by (simp add: x kd)
  also have "2 powi (e + int d) / 2 powi e = (2::real) powi (int d)"
    by (simp add: power_int_add)
  also have "of_int m * (2::real) powi (int d) = of_int (m * 2 ^ d)"
    by simp
  finally have q: "x / 2 powi e = of_int (m * 2 ^ d)" .
  have "of_int (nearest_even (x / 2 powi e)) * 2 powi e = (x / 2 powi e) * 2 powi e"
    unfolding q nearest_even_of_int ..
  also have "\<dots> = x" by simp
  finally have y: "of_int (nearest_even (x / 2 powi e)) * 2 powi e = x" .
  have nf: "\<not> 2 ^ 1024 \<le> \<bar>x\<bar>" using fin by linarith
  show ?thesis
    unfolding round64_def Let_def e_def [symmetric] y using False nf by (simp only: if_False simp_thms)
qed


lemma round64_underflow:
  assumes "0 < x" "x < 2 powi (- 1075)"
  shows "round64 x = Fin 0"
proof -
  have "\<lfloor>log 2 \<bar>x\<bar>\<rfloor> < - 1075"
    using assms by (intro floor_log2_less) simp_all
  then have e: "ulp_exponent x = - 1074" unfolding ulp_exponent_def by linarith
  have "(2::real) powi (- 1074 + - 1) = 2 powi (- 1074) * 2 powi (- 1)"
    by (rule power_int_add) simp
  then have "(2::real) powi (- 1075) = 2 powi (- 1074) * 2 powi (- 1)"
    by simp
  also have "\<dots> = 2 powi (- 1074) / 2" by (simp add: power_int_minus)
  finally have split: "(2::real) powi (- 1075) = 2 powi (- 1074) / 2" .
  have h: "x / 2 powi (- 1074) < 1 / 2"
    using assms(2) unfolding split by (simp add: field_simps)
  have p: "0 < x / 2 powi (- 1074)" using assms by simp
  have "\<lfloor>x / 2 powi (- 1074)\<rfloor> = 0"
    using h p by (simp only: floor_eq_iff) simp
  then have "nearest_even (x / 2 powi (- 1074)) = 0"
    using h by (simp add: nearest_even_def)
  then show ?thesis
    using assms(1) by (simp add: round64_def e Let_def)
qed

lemma half_min_ulp: "(2::real) powi (- 1074) / 2 = 2 powi (- 1075)"
proof -
  have "(2::real) powi (- 1074 + - 1) = 2 powi (- 1074) * 2 powi (- 1)"
    by (rule power_int_add) simp
  then have "(2::real) powi (- 1075) = 2 powi (- 1074) * 2 powi (- 1)"
    by simp
  also have "\<dots> = 2 powi (- 1074) / 2" by (simp add: power_int_minus)
  finally show ?thesis by simp
qed

lemma min_ulp_le_one: "(2::real) powi (- 1075) \<le> 1"
proof -
  have "(2::real) powi (- 1075) \<le> 2 powi 0"
    by (rule power_int_increasing) simp_all
  then show ?thesis by simp
qed

lemma no_overflow:
  assumes "\<bar>x\<bar> \<le> (2::real) ^ 1023" "\<bar>y - x\<bar> \<le> \<bar>x\<bar> / 2 ^ 53 + 2 powi (- 1075)"
  shows "\<bar>y\<bar> < 2 ^ 1024"
proof -
  define b :: real where "b = 2 ^ 1023"
  have b4: "4 \<le> b"
  proof -
    have "(2::real) ^ 2 \<le> 2 ^ 1023" by (rule power_increasing) simp_all
    then show ?thesis by (simp add: b_def)
  qed
  have two: "(2::real) ^ 1024 = 2 * b"
  proof -
    have "(2::real) ^ Suc 1023 = 2 * 2 ^ 1023" by (rule power_Suc)
    then show ?thesis by (simp add: b_def)
  qed
  have "\<bar>x\<bar> / 2 ^ 53 \<le> \<bar>x\<bar> / 2"
    by (intro divide_left_mono) simp_all
  then have "\<bar>y\<bar> \<le> \<bar>x\<bar> + \<bar>x\<bar> / 2 + 1"
    using assms(2) min_ulp_le_one by linarith
  also have "\<dots> \<le> b + b / 2 + 1" using assms(1) unfolding b_def [symmetric] by linarith
  also have "\<dots> < 2 * b" using b4 by linarith
  finally show ?thesis unfolding two .
qed

lemma round64_error:
  assumes x0: "x \<noteq> 0" and xb: "\<bar>x\<bar> \<le> 2 ^ 1023"
  shows "\<exists>y. np_value (round64 x) = Some y \<and>
           \<bar>y - x\<bar> \<le> \<bar>x\<bar> / 2 ^ 53 + 2 powi (- 1075) \<and>
           (0 < x \<longrightarrow> round64 x = Fin y \<and> 0 \<le> y) \<and> (x < 0 \<longrightarrow> y \<le> 0)"
proof -
  define e where "e = ulp_exponent x"
  define m where "m = nearest_even (x / 2 powi e)"
  define y :: real where "y = of_int m * 2 powi e"
  have "y - x = (of_int m - x / 2 powi e) * 2 powi e"
    by (simp add: y_def algebra_simps)
  then have "\<bar>y - x\<bar> = \<bar>of_int m - x / 2 powi e\<bar> * 2 powi e"
    by (simp only: abs_mult) simp
  also have "\<dots> \<le> 1 / 2 * 2 powi e"
    unfolding m_def by (intro mult_right_mono nearest_even_error) simp
  finally have err: "\<bar>y - x\<bar> \<le> 2 powi e / 2" by simp
  have ulp: "2 powi e / 2 \<le> \<bar>x\<bar> / 2 ^ 53 + 2 powi (- 1075)"
  proof -
    from ulp_bound [OF x0] show ?thesis
      unfolding e_def [symmetric]
    proof
      assume "2 powi e \<le> \<bar>x\<bar> / 2 ^ 52"
      then have "2 powi e / 2 \<le> \<bar>x\<bar> / 2 ^ 52 / 2" by simp
      also have "\<dots> = \<bar>x\<bar> / 2 ^ Suc 52" by (simp only: power_Suc) simp
      finally have "2 powi e / 2 \<le> \<bar>x\<bar> / 2 ^ 53" by simp
      then show ?thesis
        using two_powi_pos [of "- 1075"] by linarith
    next
      assume "e = - 1074"
      then show ?thesis using half_min_ulp by simp
    qed
  qed
  from err ulp have e1: "\<bar>y - x\<bar> \<le> \<bar>x\<bar> / 2 ^ 53 + 2 powi (- 1075)" by linarith
  have nov: "\<not> 2 ^ 1024 \<le> \<bar>y\<bar>"
    using no_overflow [OF xb e1] by linarith
  have pos: "0 \<le> y" if "0 < x"
  proof -
    have "0 \<le> x / 2 powi e" using that by simp
    from nearest_even_nonneg [OF this] show ?thesis by (simp add: y_def m_def)
  qed
  have neg: "y \<le> 0" if "x < 0"
  proof -
    have "x / 2 powi e \<le> 0" using that by (simp add: divide_nonpos_pos)
    from nearest_even_nonpos [OF this] show ?thesis
      by (simp add: y_def m_def mult_nonpos_nonneg)
  qed
  have r: "round64 x = (if y = 0 \<and> x < 0 then NZero else Fin y)"
    unfolding round64_def Let_def e_def [symmetric] m_def [symmetric] y_def [symmetric]
    using x0 nov by (simp only: if_False)
  show ?thesis
  proof (cases "y = 0 \<and> x < 0")
    case True
    with r have "round64 x = NZero" by simp
    with True e1 show ?thesis by (intro exI [of _ 0]) auto
  next
    case False
    with r have "round64 x = Fin y" by simp
    with e1 pos neg show ?thesis by (intro exI [of _ y]) auto
  qed
qed

lemma round64_half [simp]: "round64 (1 / 2) = Fin (1 / 2)"
proof (rule round64_exact [where m = 1 and k = "- 1"])
  show "1 / 2 = real_of_int 1 * 2 powi (- 1)" by (simp add: power_int_minus)
  show "\<bar>1::int\<bar> < 2 ^ 53" by simp
  show "- 1074 \<le> (- 1 :: int)" by simp
  have "(1::real) \<le> 2 ^ 1024" by (rule one_le_power) simp
  then show "\<bar>1 / 2 :: real\<bar> < 2 ^ 1024" by simp
qed

lemma round64_one [simp]: "round64 1 = Fin 1"
proof (rule round64_exact [where m = 1 and k = 0])
  have "(1::real) < 2 ^ 1024" by (rule one_less_power) simp_all
  then show "\<bar>1 :: real\<bar> < 2 ^ 1024" by simp
qed simp_all

lemma round64_two [simp]: "round64 2 = Fin 2"
proof (rule round64_exact [where m = 1 and k = 1])
  have "(2::real) ^ 1 < 2 ^ 1024" by (rule power_strict_increasing) simp_all
  then show "\<bar>2 :: real\<bar> < 2 ^ 1024" by simp
qed simp_all

lemma np_div_finite:
  "x \<noteq> 0 \<Longrightarrow> y \<noteq> 0 \<Longrightarrow> np_div (Fin x) (Fin y) = round64 (x / y)"
  by (simp add: np_div_def)

lemma np_div_zero_finite:
  "y \<noteq> 0 \<Longrightarrow> np_div (Fin 0) (Fin y) = signed_zero (y < 0)"
  by (simp add: np_div_def)

lemma np_div_NInf_finite:
  "np_div NInf (Fin y) = signed_inf (\<not> y < 0)"
  by (simp add: np_div_def)

lemma np_log_pos: "0 < x \<Longrightarrow> np_log (Fin x) = round64 (ln x)"
  by (simp add: np_log_def)

lemma np_log_zero [simp]: "np_log (Fin 0) = NInf"
  by (simp add: np_log_def)

lemma np_value_nonzero: "np_value a = Some y \<Longrightarrow> y \<noteq> 0 \<Longrightarrow> a = Fin y"
  by (cases a) auto

text \<open>Rounding a value of magnitude between one half and \<open>2\<^sup>1\<^sup>0\<^sup>2\<^sup>3\<close> keeps the sign.\<close>

lemma round64_regular:
  assumes lo: "1 / 2 \<le> \<bar>x\<bar>" and hi: "\<bar>x\<bar> \<le> 2 ^ 1023"
  shows "\<exists>y. round64 x = Fin y \<and> \<bar>y - x\<bar> \<le> \<bar>x\<bar> / 2 ^ 52 \<and> (0 < x \<longrightarrow> 0 < y) \<and> (x < 0 \<longrightarrow> y < 0)"
proof -
  have x0: "x \<noteq> 0" using lo by auto
  from round64_error [OF x0 hi] obtain y where
    v: "np_value (round64 x) = Some y"
    and e: "\<bar>y - x\<bar> \<le> \<bar>x\<bar> / 2 ^ 53 + 2 powi (- 1075)"
    and p: "0 < x \<longrightarrow> round64 x = Fin y \<and> 0 \<le> y" and n: "x < 0 \<longrightarrow> y \<le> 0"
    by blast
  have "(2::real) powi (- 1075) \<le> 2 powi (- 54)"
    by (rule power_int_increasing) simp_all
  also have "\<dots> = 1 / 2 / 2 ^ 53"
    by (simp add: power_int_minus inverse_eq_divide)
  also have "\<dots> \<le> \<bar>x\<bar> / 2 ^ 53"
    using lo by (intro divide_right_mono) simp_all
  finally have eta: "(2::real) powi (- 1075) \<le> \<bar>x\<bar> / 2 ^ 53" .
  have "\<bar>x\<bar> / 2 ^ 53 + \<bar>x\<bar> / 2 ^ 53 = \<bar>x\<bar> / 2 ^ 52" by simp
  with e eta have e2: "\<bar>y - x\<bar> \<le> \<bar>x\<bar> / 2 ^ 52" by linarith
  have "\<bar>x\<bar> / 2 ^ 52 \<le> \<bar>x\<bar> / 2" by (intro divide_left_mono) simp_all
  with e2 have e3: "\<bar>y - x\<bar> \<le> \<bar>x\<bar> / 2" by linarith
  have sp: "0 < x \<longrightarrow> 0 < y" using e3 by (simp add: abs_if split: if_splits)
  have sn: "x < 0 \<longrightarrow> y < 0" using e3 by (simp add: abs_if split: if_splits)
  have y0: "y \<noteq> 0" using sp sn x0 by (cases "0 < x") auto
  have "round64 x = Fin y" by (rule np_value_nonzero [OF v y0])
  moreover note sp sn
  ultimately show ?thesis using e2 by blast
qed

lemma ln_two_bounds: "1 / 2 \<le> ln (2::real)" "ln (2::real) \<le> 1"
proof -
  have sq: "exp (1 / 2) * exp (1 / 2) = exp (1::real)"
    by (simp add: exp_add [symmetric])
  have "exp (1 / 2 :: real) < 2"
  proof (rule ccontr)
    assume "\<not> exp (1 / 2 :: real) < 2"
    then have "2 \<le> exp (1 / 2 :: real)" by simp
    then have "2 * 2 \<le> exp (1 / 2 :: real) * exp (1 / 2)"
      by (intro mult_mono) simp_all
    then show False using sq exp_le by simp
  qed
  then have "ln (exp (1 / 2 :: real)) < ln 2"
    by (subst ln_less_cancel_iff) simp_all
  then show "1 / 2 \<le> ln (2::real)" by simp
  show "ln (2::real) \<le> 1" using ln_2_less_1 by linarith
qed

lemma one_le_big: "(1::real) \<le> 2 ^ 1023"
  by (rule one_le_power) simp

lemma np_log_half: "\<exists>c. np_log (Fin (1 / 2)) = Fin c \<and> c < 0 \<and> \<bar>c + ln 2\<bar> \<le> ln 2 / 2 ^ 52"
proof -
  have l: "ln (1 / 2 :: real) = - ln 2" by (simp add: ln_div)
  have "\<exists>y. round64 (- ln 2) = Fin y \<and> \<bar>y - (- ln 2)\<bar> \<le> \<bar>- ln (2::real)\<bar> / 2 ^ 52 \<and>
      (0 < - ln (2::real) \<longrightarrow> 0 < y) \<and> (- ln (2::real) < 0 \<longrightarrow> y < 0)"
    using ln_two_bounds one_le_big by (intro round64_regular) simp_all
  then obtain y where "round64 (- ln 2) = Fin y" "\<bar>y + ln 2\<bar> \<le> ln 2 / 2 ^ 52" "y < 0"
    using ln_two_bounds by auto
  then show ?thesis by (auto simp: np_log_pos l)
qed

lemma np_log_two: "\<exists>z. np_log (Fin 2) = Fin z \<and> 0 < z"
proof -
  have "\<exists>y. round64 (ln 2) = Fin y \<and> \<bar>y - ln 2\<bar> \<le> \<bar>ln (2::real)\<bar> / 2 ^ 52 \<and>
      (0 < ln (2::real) \<longrightarrow> 0 < y) \<and> (ln (2::real) < 0 \<longrightarrow> y < 0)"
    using ln_two_bounds one_le_big by (intro round64_regular) simp_all
  then obtain y where "round64 (ln 2) = Fin y" "0 < y"
    using ln_two_bounds by auto
  then show ?thesis by (auto simp: np_log_pos)
qed

lemma abs_ln_one_plus: "\<bar>d\<bar> \<le> 1 / 2 \<Longrightarrow> \<bar>ln (1 + d)\<bar> \<le> 2 * \<bar>d :: real\<bar>"
proof -
  assume d: "\<bar>d\<bar> \<le> 1 / 2"
  then have "\<bar>ln (1 + d) - d\<bar> \<le> 2 * d\<^sup>2" by (rule abs_ln_one_plus_x_minus_x_bound)
  moreover have "2 * d\<^sup>2 \<le> \<bar>d\<bar>"
  proof -
    have "d\<^sup>2 = \<bar>d\<bar> * \<bar>d\<bar>" by (simp add: power2_eq_square)
    also have "\<dots> \<le> \<bar>d\<bar> * (1 / 2)" using d by (intro mult_left_mono) simp_all
    finally show ?thesis by simp
  qed
  ultimately show ?thesis by linarith
qed

text \<open>The quotient of two rounded logarithms, against the exact rate.\<close>

lemma quotient_error:
  fixes r u q L dl la b c :: real
  assumes u: "0 < u" "u \<le> 1 / 64" and eta: "0 \<le> q" "q \<le> u"
    and L: "1 / 2 \<le> L" "L \<le> 1"
    and lam: "\<bar>dl\<bar> \<le> 4 * u" and la: "la = - r * L + dl"
    and e2: "\<bar>b - la\<bar> \<le> u * \<bar>la\<bar> + q"
    and e3: "\<bar>c + L\<bar> \<le> 2 * u * L" and c: "c < 0"
  shows "\<bar>b / c - r\<bar> \<le> 20 * u * (1 + \<bar>r\<bar>)" and "\<bar>b / c\<bar> \<le> 2 * (1 + \<bar>r\<bar>)"
proof -
  define R where "R = 1 + \<bar>r\<bar>"
  have R1: "1 \<le> R" "\<bar>r\<bar> \<le> R" by (simp_all add: R_def)
  have rL: "\<bar>r * L\<bar> \<le> \<bar>r\<bar>"
  proof -
    have "\<bar>r * L\<bar> = \<bar>r\<bar> * L" using L by (simp add: abs_mult)
    also have "\<dots> \<le> \<bar>r\<bar> * 1" using L by (intro mult_left_mono) simp_all
    finally show ?thesis by simp
  qed
  have "\<bar>la\<bar> \<le> \<bar>r * L\<bar> + \<bar>dl\<bar>" unfolding la by simp
  then have laR: "\<bar>la\<bar> \<le> R" using rL lam u unfolding R_def by linarith
  have "u * \<bar>la\<bar> \<le> u * R" using laR u by (intro mult_left_mono) simp_all
  moreover have "q \<le> u * R"
  proof -
    have "u * 1 \<le> u * R" using R1 u by (intro mult_left_mono) simp_all
    then show ?thesis using eta by simp
  qed
  ultimately have E2: "\<bar>b - la\<bar> \<le> 2 * (u * R)" using e2 by linarith
  have "2 * u * L \<le> 2 * u * 1" using L u by (intro mult_left_mono) simp_all
  then have E3: "\<bar>c + L\<bar> \<le> 2 * u" using e3 by simp
  have "\<bar>r * (c + L)\<bar> = \<bar>r\<bar> * \<bar>c + L\<bar>" by (simp add: abs_mult)
  also have "\<dots> \<le> R * (2 * u)" using R1 E3 by (intro mult_mono) simp_all
  finally have rE3: "\<bar>r * (c + L)\<bar> \<le> 2 * (u * R)" by (simp add: mult_ac)
  have lamR: "\<bar>dl\<bar> \<le> 4 * (u * R)"
  proof -
    have "u * 1 \<le> u * R" using R1 u by (intro mult_left_mono) simp_all
    then show ?thesis using lam by simp
  qed
  have "b - r * c = dl + (b - la) - r * (c + L)"
    by (simp add: la algebra_simps)
  then have "\<bar>b - r * c\<bar> \<le> \<bar>dl\<bar> + \<bar>b - la\<bar> + \<bar>r * (c + L)\<bar>" by linarith
  then have num: "\<bar>b - r * c\<bar> \<le> 8 * (u * R)" using lamR E2 rE3 by linarith
  have "L - 2 * u \<le> \<bar>c\<bar>" using E3 c by linarith
  then have cl: "2 / 5 \<le> \<bar>c\<bar>" using L u by linarith
  have c0: "c \<noteq> 0" using c by simp
  have "b / c - r = (b - r * c) / c" using c0 by (simp add: field_simps)
  then have "\<bar>b / c - r\<bar> = \<bar>b - r * c\<bar> / \<bar>c\<bar>" by (simp add: abs_divide)
  also have "\<dots> \<le> 8 * (u * R) / \<bar>c\<bar>"
    using num by (intro divide_right_mono) simp_all
  also have "\<dots> \<le> 8 * (u * R) / (2 / 5)"
    using cl u R1 by (intro divide_left_mono) (simp_all add: mult_pos_pos)
  also have "\<dots> = 20 * u * R" by simp
  finally show A: "\<bar>b / c - r\<bar> \<le> 20 * u * (1 + \<bar>r\<bar>)" unfolding R_def .
  have "20 * u * R \<le> 20 * (1 / 64) * R"
    using u R1 by (intro mult_right_mono mult_left_mono) simp_all
  then have "\<bar>b / c - r\<bar> \<le> R / 2" using A unfolding R_def [symmetric] by linarith
  then show "\<bar>b / c\<bar> \<le> 2 * (1 + \<bar>r\<bar>)" using R1 unfolding R_def [symmetric] by linarith
qed

lemma min_ulp_le_u: "(2::real) powi (- 1075) \<le> 1 / 2 ^ 53"
proof -
  have "(2::real) powi (- 1075) \<le> 2 powi (- 53)"
    by (rule power_int_increasing) simp_all
  then show ?thesis by (simp add: power_int_minus inverse_eq_divide)
qed

lemma min_normal_split: "(2::real) powi (- 1075) = 2 powi (- 1022) / 2 ^ 53"
proof -
  have "(2::real) powi (- 1022 + - 53) = 2 powi (- 1022) * 2 powi (- 53)"
    by (rule power_int_add) simp
  then show ?thesis by (simp add: power_int_minus inverse_eq_divide)
qed

lemma np_div_to_negative:
  assumes v: "np_value A = Some b" and c: "c < 0"
    and range: "\<bar>b / c\<bar> \<le> 2 ^ 1023"
  shows "\<exists>t. np_value (np_div A (Fin c)) = Some t \<and>
           \<bar>t - b / c\<bar> \<le> \<bar>b / c\<bar> / 2 ^ 53 + 2 powi (- 1075)"
proof (cases "b = 0")
  case True
  with v have "A = Fin 0 \<or> A = NZero" by (cases A) auto
  then have "np_value (np_div A (Fin c)) = Some 0"
    using c by (auto simp: np_div_def signed_zero_def)
  with True show ?thesis by simp
next
  case False
  with v have A: "A = Fin b" by (rule np_value_nonzero)
  have d: "np_div A (Fin c) = round64 (b / c)"
    unfolding A using False c by (intro np_div_finite) simp_all
  have "b / c \<noteq> 0" using False c by simp
  from round64_error [OF this range] show ?thesis unfolding d by blast
qed

lemma power_law_rate:
  assumes E: "0 < E0" "0 < E1" "E1 / E0 = (1 / 2) powr r"
    and h: "0 < h" and r: "\<bar>r\<bar> \<le> 1022"
  shows "\<exists>t. np_value (np_div (np_log (np_div (Fin E1) (Fin E0)))
                                (np_log (np_div (Fin (h / 2)) (Fin h)))) = Some t \<and>
           \<bar>t - r\<bar> \<le> (1 + \<bar>r\<bar>) / 2 ^ 48"
proof -
  define u :: real where "u = 1 / 2 ^ 53"
  define q :: real where "q = 2 powi (- 1075)"
  define x where "x = (1 / 2) powr r"
  have u: "0 < u" "u \<le> 1 / 64" by (simp_all add: u_def)
  have q: "0 \<le> q" "q \<le> u"
    using min_ulp_le_u by (simp_all add: q_def u_def)
  have x0: "0 < x" by (simp add: x_def)
  have xp: "x = 2 powr (- r)" by (simp add: x_def powr_minus powr_divide inverse_eq_divide)
  have "x \<le> 2 powr 1022" unfolding xp using r by (intro powr_mono) auto
  also have "\<dots> = 2 ^ 1022" by (simp add: powr_realpow [symmetric])
  also have "\<dots> \<le> (2::real) ^ 1023" by (rule power_increasing) simp_all
  finally have xhi: "\<bar>x\<bar> \<le> 2 ^ 1023" using x0 by simp
  have "2 powr (- 1022) \<le> x" unfolding xp using r by (intro powr_mono) auto
  moreover have "(2::real) powr (- 1022) = 2 powi (- 1022)"
    using powr_real_of_int' [of 2 "- 1022"] by simp
  ultimately have xlo: "2 powi (- 1022) \<le> x" by simp
  \<comment> \<open>the quotient of the errors\<close>
  from round64_error [OF _ xhi] x0 obtain a where
    a: "round64 x = Fin a" "0 \<le> a" and ea: "\<bar>a - x\<bar> \<le> \<bar>x\<bar> / 2 ^ 53 + 2 powi (- 1075)"
    by auto
  have "2 powi (- 1075) \<le> x / 2 ^ 53"
    unfolding min_normal_split using xlo by (intro divide_right_mono) simp_all
  then have ea2: "\<bar>a - x\<bar> \<le> 2 * u * x" using ea x0 by (simp add: u_def)
  define d where "d = a / x - 1"
  have "d = (a - x) / x" using x0 by (simp add: d_def field_simps)
  then have "\<bar>d\<bar> = \<bar>a - x\<bar> / x" using x0 by (simp add: abs_divide)
  also have "\<dots> \<le> 2 * u * x / x" using ea2 x0 by (intro divide_right_mono) simp_all
  also have "\<dots> = 2 * u" using x0 by simp
  finally have d: "\<bar>d\<bar> \<le> 2 * u" .
  then have dh: "\<bar>d\<bar> \<le> 1 / 2" using u by linarith
  have ad: "a = x * (1 + d)" using x0 by (simp add: d_def field_simps)
  have d1: "0 < 1 + d" using dh by linarith
  have a0: "0 < a" unfolding ad using x0 d1 by (rule mult_pos_pos)
  define dl where "dl = ln (1 + d)"
  have dl: "\<bar>dl\<bar> \<le> 4 * u" using abs_ln_one_plus [OF dh] d by (simp add: dl_def)
  define la where "la = ln a"
  have "ln a = ln x + ln (1 + d)"
    unfolding ad using x0 d1 by (rule ln_mult_pos)
  moreover have "ln x = - r * ln 2" by (simp add: xp ln_powr)
  ultimately have la: "la = - r * ln 2 + dl" by (simp add: la_def dl_def)
  have qE: "np_div (Fin E1) (Fin E0) = Fin a"
    using E a by (simp add: np_div_finite x_def)
  have lE: "np_log (Fin a) = round64 la"
    using a0 by (simp add: np_log_pos la_def)
  \<comment> \<open>its logarithm\<close>
  have "\<bar>la\<bar> \<le> \<bar>r * ln 2\<bar> + \<bar>dl\<bar>" unfolding la by simp
  moreover have "\<bar>r * ln 2\<bar> \<le> \<bar>r\<bar>"
  proof -
    have "\<bar>r * ln 2\<bar> = \<bar>r\<bar> * ln 2" using ln_two_bounds by (simp add: abs_mult)
    also have "\<dots> \<le> \<bar>r\<bar> * 1" using ln_two_bounds by (intro mult_left_mono) simp_all
    finally show ?thesis by simp
  qed
  ultimately have "\<bar>la\<bar> \<le> 1023" using r dl u by linarith
  also have "(1023::real) \<le> 2 ^ 10" by simp
  also have "(2::real) ^ 10 \<le> 2 ^ 1023" by (rule power_increasing) simp_all
  finally have lahi: "\<bar>la\<bar> \<le> 2 ^ 1023" .
  have "\<exists>b. np_value (round64 la) = Some b \<and> \<bar>b - la\<bar> \<le> u * \<bar>la\<bar> + q"
  proof (cases "la = 0")
    case True
    then show ?thesis using q by simp
  next
    case False
    from round64_error [OF False lahi] show ?thesis
      by (auto simp: u_def q_def)
  qed
  then obtain b where b: "np_value (round64 la) = Some b" and eb: "\<bar>b - la\<bar> \<le> u * \<bar>la\<bar> + q"
    by blast
  \<comment> \<open>the logarithm of the quotient of the mesh sizes\<close>
  have qh: "np_div (Fin (h / 2)) (Fin h) = Fin (1 / 2)"
    using h by (simp add: np_div_finite)
  from np_log_half obtain c where
    c: "np_log (Fin (1 / 2)) = Fin c" "c < 0" and ec: "\<bar>c + ln 2\<bar> \<le> ln 2 / 2 ^ 52"
    by blast
  have ec2: "\<bar>c + ln 2\<bar> \<le> 2 * u * ln 2" using ec by (simp add: u_def)
  \<comment> \<open>the rate\<close>
  note qe = quotient_error [OF u q ln_two_bounds dl la eb ec2 c(2)]
  have "\<bar>b / c\<bar> \<le> 2 * (1 + \<bar>r\<bar>)" by (rule qe(2))
  also have "\<dots> \<le> 2 ^ 11" using r by simp
  also have "(2::real) ^ 11 \<le> 2 ^ 1023" by (rule power_increasing) simp_all
  finally have range: "\<bar>b / c\<bar> \<le> 2 ^ 1023" .
  from np_div_to_negative [OF b c(2) range] obtain t where
    t: "np_value (np_div (round64 la) (Fin c)) = Some t"
    and et: "\<bar>t - b / c\<bar> \<le> \<bar>b / c\<bar> / 2 ^ 53 + 2 powi (- 1075)"
    by blast
  define R where "R = u * (1 + \<bar>r\<bar>)"
  have s1: "\<bar>b / c\<bar> / 2 ^ 53 = u * \<bar>b / c\<bar>" by (simp add: u_def)
  have et': "\<bar>t - b / c\<bar> \<le> u * \<bar>b / c\<bar> + q"
    using et unfolding s1 q_def [symmetric] .
  have "u * \<bar>b / c\<bar> \<le> u * (2 * (1 + \<bar>r\<bar>))"
    using qe(2) u by (intro mult_left_mono) simp_all
  also have "u * (2 * (1 + \<bar>r\<bar>)) = 2 * R" by (simp add: R_def)
  finally have s2: "u * \<bar>b / c\<bar> \<le> 2 * R" .
  have s3: "q \<le> R"
  proof -
    have "u * 1 \<le> u * (1 + \<bar>r\<bar>)" using u by (intro mult_left_mono) simp_all
    then show ?thesis using q by (simp add: R_def)
  qed
  have "20 * u * (1 + \<bar>r\<bar>) = 20 * R" by (simp add: R_def)
  with qe(1) have s4: "\<bar>b / c - r\<bar> \<le> 20 * R" by (simp only:)
  have R0: "0 \<le> R" using u by (simp add: R_def)
  have "\<bar>t - r\<bar> \<le> 32 * R" using et' s2 s3 s4 R0 by linarith
  also have "\<dots> = (1 + \<bar>r\<bar>) / 2 ^ 48" by (simp add: R_def u_def)
  finally have "\<bar>t - r\<bar> \<le> (1 + \<bar>r\<bar>) / 2 ^ 48" .
  with t show ?thesis unfolding qE lE qh c(1) by blast
qed

subsection \<open>Small integers, sums and square roots\<close>

lemma round64_of_int:
  assumes "\<bar>m\<bar> < 2 ^ 53"
  shows "round64 (of_int m) = Fin (of_int m)"
proof (rule round64_exact [where m = m and k = 0])
  show "real_of_int m = real_of_int m * 2 powi 0" by simp
  show "\<bar>m\<bar> < 2 ^ 53" by fact
  show "- 1074 \<le> (0::int)" by simp
  have "\<bar>real_of_int m\<bar> = real_of_int \<bar>m\<bar>" by simp
  also have "\<dots> < real_of_int (2 ^ 53)" using assms by (simp only: of_int_less_iff)
  also have "\<dots> = 2 ^ 53" by simp
  also have "(2::real) ^ 53 \<le> 2 ^ 1024" by (rule power_increasing) simp_all
  finally show "\<bar>real_of_int m\<bar> < 2 ^ 1024" .
qed

lemma round64_numeral [simp]:
  "numeral n < (2::int) ^ 53 \<Longrightarrow> round64 (numeral n) = Fin (numeral n)"
  using round64_of_int [of "numeral n"] by simp

lemma np_add_finite: "np_add (Fin x) (Fin y) = round64 (x + y)"
  by (simp add: np_add_def)

lemma np_sqrt_nonneg: "0 \<le> x \<Longrightarrow> np_sqrt (Fin x) = round64 (sqrt x)"
  by (simp add: np_sqrt_def)








section \<open>Properties of the rate estimator\<close>

lemma np_binop_same_length:
  "length xs = length ys \<Longrightarrow> np_binop f xs ys = Inr (map2 f xs ys)"
  by (simp add: np_binop_def)

lemma slice_ratio:
  "np_binop np_div (drop 1 a) (butlast a) = Inr (map2 np_div (drop 1 a) (butlast a))"
  by (rule np_binop_same_length) simp

lemma rates_same_length:
  assumes "length Es = length hs"
  shows "rates Es hs = Inr (map (rate_at Es hs) [0..<length Es - 1])"
proof -
  let ?qE = "map2 np_div (drop 1 Es) (butlast Es)"
  let ?qh = "map2 np_div (drop 1 hs) (butlast hs)"
  have len: "length (map np_log ?qE) = length (map np_log ?qh)"
    using assms by simp
  have r: "rates Es hs = Inr (map2 np_div (map np_log ?qE) (map np_log ?qh))"
    unfolding rates_def slice_ratio sum.case by (rule np_binop_same_length [OF len])
  have "map2 np_div (map np_log ?qE) (map np_log ?qh) = map (rate_at Es hs) [0..<length Es - 1]"
  proof (rule nth_equalityI)
    show "length (map2 np_div (map np_log ?qE) (map np_log ?qh))
        = length (map (rate_at Es hs) [0..<length Es - 1])"
      using assms by simp
  next
    fix i
    assume "i < length (map2 np_div (map np_log ?qE) (map np_log ?qh))"
    then have i: "i < length Es - 1" "i < length hs - 1"
      using assms by simp_all
    then show "map2 np_div (map np_log ?qE) (map np_log ?qh) ! i
        = map (rate_at Es hs) [0..<length Es - 1] ! i"
      by (simp add: rate_at_def nth_butlast)
  qed
  with r show ?thesis by simp
qed

lemma rates_failure:
  "rates Es hs = Inl e \<Longrightarrow> e = ValueError \<and> length Es \<noteq> length hs"
  by (cases "length Es = length hs")
     (auto simp: rates_same_length rates_def slice_ratio np_binop_def split: if_splits)

lemma rates_pair:
  "rates [E0, E1] [h0, h1] = Inr [np_div (np_log (np_div E1 E0)) (np_log (np_div h1 h0))]"
  by (simp add: rates_same_length rate_at_def)

lemma np_div_quarter_eighth: "np_div (Fin (1 / 8)) (Fin (1 / 4)) = Fin (1 / 2)"
  by (simp add: np_div_finite)

lemma rate_of_zero_quotient:
  "np_div NInf (np_log (Fin (1 / 2))) = PInf"
proof -
  from np_log_half obtain c where "np_log (Fin (1 / 2)) = Fin c" "c < 0" by blast
  then show ?thesis by (simp add: np_div_NInf_finite signed_inf_def)
qed

lemma tiny_quotient: "np_div (Fin (1 / 2 ^ 600)) (Fin (2 ^ 600)) = Fin 0"
proof -
  have "(1 / 2 ^ 600) / 2 ^ 600 = 1 / ((2::real) ^ 600 * 2 ^ 600)" by simp
  also have "(2::real) ^ 600 * 2 ^ 600 = 2 ^ (600 + 600)" by (rule power_add [symmetric])
  finally have q: "(1 / 2 ^ 600) / 2 ^ 600 = 1 / (2::real) ^ 1200" by simp
  have "1 / (2::real) ^ 1200 = 2 powi (- 1200)"
    by (simp add: power_int_minus inverse_eq_divide)
  also have "\<dots> < 2 powi (- 1075)"
    by (rule power_int_strict_increasing) simp_all
  finally have small: "1 / (2::real) ^ 1200 < 2 powi (- 1075)" .
  have "round64 (1 / 2 ^ 1200) = Fin 0"
    by (rule round64_underflow [OF _ small]) simp
  moreover have "np_div (Fin (1 / 2 ^ 600)) (Fin (2 ^ 600)) = round64 ((1 / 2 ^ 600) / 2 ^ 600)"
    by (rule np_div_finite) simp_all
  ultimately show ?thesis unfolding q by simp
qed

subsection \<open>No validation of the errors\<close>

text \<open>
  C1, as the notebook behaves.  The array expression has no check on the errors.  With a
  zero error next to a positive one it returns \<open>inf\<close> without raising anything.
\<close>

theorem rates_zero_error_counterexample:
  "rates [Fin 1, Fin 0] [Fin (1/4), Fin (1/8)] = Inr [PInf]"
proof -
  have "np_div (Fin 0) (Fin 1) = Fin 0"
    by (simp add: np_div_zero_finite signed_zero_def)
  then show ?thesis
    by (simp add: rates_pair np_div_quarter_eighth rate_of_zero_quotient)
qed

text \<open>
  C1, amended: the rate computation never fails with \<open>DegenerateSample\<close>, and for two
  arrays of the same length it returns an array of rates, one shorter than the input,
  whatever the sign of the errors.  In particular it succeeds when every error is
  strictly positive.
\<close>

theorem rates_never_degenerate:
  "rates Es hs \<noteq> Inl DegenerateSample \<and>
   (length Es = length hs \<longrightarrow> (\<exists>rs. rates Es hs = Inr rs \<and> length rs = length Es - 1))"
proof
  show "rates Es hs \<noteq> Inl DegenerateSample"
    using rates_failure [of Es hs DegenerateSample] by auto
  show "length Es = length hs \<longrightarrow> (\<exists>rs. rates Es hs = Inr rs \<and> length rs = length Es - 1)"
    by (simp add: rates_same_length)
qed

theorem rates_never_degenerate_witness:
  "rates [Fin 1, Fin (-2)] [Fin (1/4), Fin (1/8)] \<noteq> Inl DegenerateSample \<and>
   (\<exists>rs. rates [Fin 1, Fin (-2)] [Fin (1/4), Fin (1/8)] = Inr rs \<and> length rs = 1)"
  using rates_never_degenerate [of "[Fin 1, Fin (-2)]" "[Fin (1/4), Fin (1/8)]"]
  by simp

subsection \<open>No validation of the mesh sizes\<close>

text \<open>
  C2, as the notebook behaves.  With increasing mesh sizes the array expression returns a
  rate and raises nothing.
\<close>

theorem rates_unordered_counterexample:
  "rates [Fin 1, Fin 2] [Fin (1/8), Fin (1/4)] = Inr [Fin 1]"
proof -
  from np_log_two obtain z where z: "np_log (Fin 2) = Fin z" "0 < z" by blast
  have "np_div (Fin z) (Fin z) = round64 (z / z)"
    using z(2) by (intro np_div_finite) simp_all
  then have "np_div (Fin z) (Fin z) = Fin 1" using z(2) by simp
  then show ?thesis
    by (simp add: rates_pair np_div_finite z(1))
qed

text \<open>
  C2, amended: the order of the mesh sizes is never inspected.  The only failure of the
  rate computation is NumPy's \<open>ValueError\<close> for operands that cannot be broadcast, which
  needs arrays of different lengths; \<open>UnorderedSampleSequence\<close> is never raised, for
  decreasing mesh sizes or any other.
\<close>

theorem rates_only_shape_failure:
  "rates Es hs = Inl e \<longrightarrow> e = ValueError \<and> e \<noteq> UnorderedSampleSequence \<and> length Es \<noteq> length hs"
  using rates_failure [of Es hs e] by auto

theorem rates_only_shape_failure_witness:
  "rates [Fin 1, Fin 2, Fin 3] [Fin 4, Fin 3, Fin 2, Fin 1] = Inl ValueError \<and>
   ValueError \<noteq> UnorderedSampleSequence \<and>
   length [Fin 1, Fin 2, Fin 3] \<noteq> length [Fin 4, Fin 3, Fin 2, Fin 1]"
proof -
  have r: "rates [Fin 1, Fin 2, Fin 3] [Fin 4, Fin 3, Fin 2, Fin 1] = Inl ValueError"
    by (simp add: rates_def np_binop_def)
  from rates_only_shape_failure [of "[Fin 1, Fin 2, Fin 3]" "[Fin 4, Fin 3, Fin 2, Fin 1]" ValueError] r
  show ?thesis by simp
qed

subsection \<open>The pairwise log-ratio, in float64\<close>

text \<open>
  C4, as the notebook behaves.  The errors \<open>2\<^sup>6\<^sup>0\<^sup>0\<close> and \<open>2\<^sup>-\<^sup>6\<^sup>0\<^sup>0\<close> are strictly positive
  \<^verbatim>\<open>float64\<close> values and the mesh sizes \<open>1/4\<close> and \<open>1/8\<close> are strictly decreasing; the
  log-ratio \<open>ln (E\<^sub>1 / E\<^sub>0) / ln (h\<^sub>1 / h\<^sub>0)\<close> of these numbers is 1200.  The quotient of the
  errors, \<open>2\<^sup>-\<^sup>1\<^sup>2\<^sup>0\<^sup>0\<close>, underflows to zero, its logarithm is \<open>-inf\<close>, and the notebook returns
  \<open>inf\<close>.
\<close>

theorem rates_underflow_counterexample:
  "rates [Fin (2 ^ 600), Fin (1 / 2 ^ 600)] [Fin (1/4), Fin (1/8)] = Inr [PInf] \<and>
   ln ((1 / 2 ^ 600) / 2 ^ 600) / ln ((1/8) / (1/4)) = (1200 :: real)"
proof
  show "rates [Fin (2 ^ 600), Fin (1 / 2 ^ 600)] [Fin (1/4), Fin (1/8)] = Inr [PInf]"
    by (simp only: rates_pair tiny_quotient np_div_quarter_eighth np_log_zero
        rate_of_zero_quotient)
  have "(1 / 2 ^ 600) / 2 ^ 600 = 1 / ((2::real) ^ 600 * 2 ^ 600)" by simp
  also have "(2::real) ^ 600 * 2 ^ 600 = 2 ^ (600 + 600)" by (rule power_add [symmetric])
  finally have q: "(1 / 2 ^ 600) / 2 ^ 600 = 1 / (2::real) ^ 1200" by simp
  define P :: real where "P = 2 ^ 1200"
  have "0 < P" unfolding P_def by (rule zero_less_power) simp
  then have "ln (1 / P) = - ln P" by (simp add: ln_div)
  moreover have "ln P = real 1200 * ln 2" unfolding P_def by (rule ln_realpow)
  ultimately have n: "ln (1 / (2::real) ^ 1200) = - (1200 * ln 2)" unfolding P_def by simp
  have d: "ln ((1/8) / (1/4) :: real) = - ln 2" by (simp add: ln_div)
  have "ln (2::real) \<noteq> 0" using ln_two_bounds by auto
  then show "ln ((1 / 2 ^ 600) / 2 ^ 600) / ln ((1/8) / (1/4)) = (1200 :: real)"
    unfolding q n d by simp
qed

text \<open>
  C4, amended: for \<open>n \<ge> 2\<close> samples the result has \<open>n - 1\<close> entries, and entry \<open>i\<close> (from 1 to
  \<open>n - 1\<close>, stored at index \<open>i - 1\<close>) is \<^verbatim>\<open>np.log(E[i]/E[i-1]) / np.log(h[i]/h[i-1])\<close> as
  \<^verbatim>\<open>float64\<close> computes it: each quotient and each logarithm is rounded, overflows to an
  infinity and underflows to zero.  This holds for all samples, with or without the
  preconditions; it is the log-ratio of the real numbers only up to these effects.
\<close>

theorem rates_formula:
  assumes len: "length Es = length hs" and n: "2 \<le> length Es"
  shows "\<exists>rs. rates Es hs = Inr rs \<and> length rs = length Es - 1 \<and>
     (\<forall>i. 1 \<le> i \<and> i < length Es \<longrightarrow>
        rs ! (i - 1) = np_div (np_log (np_div (Es ! i) (Es ! (i - 1))))
                              (np_log (np_div (hs ! i) (hs ! (i - 1)))))"
proof -
  let ?rs = "map (rate_at Es hs) [0..<length Es - 1]"
  have r: "rates Es hs = Inr ?rs" by (rule rates_same_length [OF len])
  have "\<forall>i. 1 \<le> i \<and> i < length Es \<longrightarrow>
      ?rs ! (i - 1) = np_div (np_log (np_div (Es ! i) (Es ! (i - 1))))
                             (np_log (np_div (hs ! i) (hs ! (i - 1))))"
  proof (intro allI impI)
    fix i
    assume "1 \<le> i \<and> i < length Es"
    then obtain j where j: "i = Suc j" "j < length Es - 1" by (cases i) auto
    then show "?rs ! (i - 1) = np_div (np_log (np_div (Es ! i) (Es ! (i - 1))))
                             (np_log (np_div (hs ! i) (hs ! (i - 1))))"
      by (simp add: rate_at_def)
  qed
  with r show ?thesis by simp
qed

theorem rates_formula_witness:
  "\<exists>rs. rates [Fin 1, Fin (1/4), Fin (1/16)] [Fin (1/4), Fin (1/8), Fin (1/16)] = Inr rs \<and>
     length rs = 2 \<and>
     rs ! 1 = np_div (np_log (np_div (Fin (1/16)) (Fin (1/4))))
                     (np_log (np_div (Fin (1/16)) (Fin (1/8))))"
proof -
  let ?Es = "[Fin 1, Fin (1/4), Fin (1/16)]" and ?hs = "[Fin (1/4), Fin (1/8), Fin (1/16)]"
  have a: "length ?Es = length ?hs" "2 \<le> length ?Es" by simp_all
  from rates_formula [OF a] obtain rs where
    rs: "rates ?Es ?hs = Inr rs" "length rs = length ?Es - 1"
    and f: "\<forall>i. 1 \<le> i \<and> i < length ?Es \<longrightarrow>
        rs ! (i - 1) = np_div (np_log (np_div (?Es ! i) (?Es ! (i - 1))))
                              (np_log (np_div (?hs ! i) (?hs ! (i - 1))))"
    by blast
  from f [rule_format, of 2]
  have "rs ! 1 = np_div (np_log (np_div (Fin (1/16)) (Fin (1/4))))
                         (np_log (np_div (Fin (1/16)) (Fin (1/8))))"
    by simp
  with rs show ?thesis by simp
qed

subsection \<open>Recovery of a power law, up to rounding\<close>

text \<open>
  C6, as the notebook behaves.  With \<open>C = 2\<^sup>6\<^sup>0\<^sup>0\<close>, \<open>r = 1200\<close> and the mesh sizes 1 and 1/2
  the samples \<open>E\<^sub>i = C * h\<^sub>i\<^sup>r\<close> are the \<^verbatim>\<open>float64\<close> values \<open>2\<^sup>6\<^sup>0\<^sup>0\<close> and \<open>2\<^sup>-\<^sup>6\<^sup>0\<^sup>0\<close>.  Their
  quotient underflows and the rate that comes back is \<open>inf\<close>, not 1200.
\<close>

theorem rates_power_law_counterexample:
  "rates (map (\<lambda>i. Fin (2 ^ 600 * (1 / 2 ^ i) powr 1200)) [0..<2])
         (map (\<lambda>i. Fin (1 / 2 ^ i)) [0..<2]) = Inr [PInf]"
proof -
  have "(1 / 2 :: real) powr 1200 = (1 / 2) ^ 1200"
    using powr_realpow [of "1 / 2 :: real" 1200] by simp
  also have "\<dots> = 1 / 2 ^ 1200" by (simp add: power_divide)
  finally have p: "(1 / 2 :: real) powr 1200 = 1 / 2 ^ 1200" .
  have "(2::real) ^ 1200 = 2 ^ (600 + 600)" by simp
  also have "\<dots> = 2 ^ 600 * 2 ^ 600" by (rule power_add)
  finally have "(2::real) ^ 600 * (1 / 2 ^ 1200) = 1 / 2 ^ 600" by simp
  then have E1: "(2::real) ^ 600 * (1 / 2) powr 1200 = 1 / 2 ^ 600" unfolding p .
  have l: "[0..<2] = [0, Suc 0]" by (simp add: upt_rec)
  have a: "(2::real) ^ 600 * (1 / 2 ^ 0) powr 1200 = 2 ^ 600" by simp
  have b: "(2::real) ^ 600 * (1 / 2 ^ Suc 0) powr 1200 = 1 / 2 ^ 600" using E1 by simp
  have es: "map (\<lambda>i. Fin (2 ^ 600 * (1 / 2 ^ i) powr 1200)) [0..<2]
      = [Fin (2 ^ 600), Fin (1 / 2 ^ 600)]"
    unfolding l by (simp only: list.map a b)
  have hs: "map (\<lambda>i. Fin (1 / 2 ^ i)) [0..<2] = [Fin 1, Fin (1 / 2)]"
    unfolding l by simp
  have h: "np_div (Fin (1 / 2)) (Fin 1) = Fin (1 / 2)" by (simp add: np_div_finite)
  show ?thesis
    unfolding es hs
    by (simp only: rates_pair tiny_quotient h np_log_zero rate_of_zero_quotient)
qed

text \<open>
  C6, amended: for \<open>C > 0\<close>, halving mesh sizes \<open>h\<^sub>i = h\<^sub>0 / 2\<^sup>i\<close> and a rate with \<open>\<bar>r\<bar> \<le> 1022\<close>, so
  that the quotient \<open>2\<^sup>-\<^sup>r\<close> of two consecutive errors \<open>E\<^sub>i = C * h\<^sub>i\<^sup>r\<close> is in the normal range
  of \<^verbatim>\<open>float64\<close>, every entry of the result is a finite value within
  \<open>(1 + \<bar>r\<bar>) / 2\<^sup>4\<^sup>8\<close> of \<open>r\<close>: the rate is recovered up to the rounding of two quotients and
  two logarithms.
\<close>

theorem rates_power_law:
  assumes C: "0 < C" and h0: "0 < h0" and r: "\<bar>r\<bar> \<le> 1022"
  shows "\<exists>rs. rates (map (\<lambda>i. Fin (C * (h0 / 2 ^ i) powr r)) [0..<n])
                    (map (\<lambda>i. Fin (h0 / 2 ^ i)) [0..<n]) = Inr rs \<and>
              length rs = n - 1 \<and>
              (\<forall>x\<in>set rs. \<exists>t. np_value x = Some t \<and> \<bar>t - r\<bar> \<le> (1 + \<bar>r\<bar>) / 2 ^ 48)"
proof -
  let ?Es = "map (\<lambda>i. Fin (C * (h0 / 2 ^ i) powr r)) [0..<n]"
  let ?hs = "map (\<lambda>i. Fin (h0 / 2 ^ i)) [0..<n]"
  let ?rs = "map (rate_at ?Es ?hs) [0..<n - 1]"
  have run: "rates ?Es ?hs = Inr ?rs"
    using rates_same_length [of ?Es ?hs] by simp
  have "\<exists>t. np_value (rate_at ?Es ?hs i) = Some t \<and> \<bar>t - r\<bar> \<le> (1 + \<bar>r\<bar>) / 2 ^ 48"
    if i: "i < n - 1" for i
  proof -
    let ?E0 = "C * (h0 / 2 ^ i) powr r" and ?E1 = "C * (h0 / 2 ^ Suc i) powr r"
    have lt: "Suc i < n" "i < n" using i by simp_all
    have hi: "0 < h0 / 2 ^ i" using h0 by simp
    have half: "h0 / 2 ^ Suc i = (h0 / 2 ^ i) / 2" by simp
    have "?E1 / ?E0 = (h0 / 2 ^ Suc i) powr r / (h0 / 2 ^ i) powr r"
      by (rule mult_divide_mult_cancel_left) (use C in simp)
    also have "\<dots> = ((h0 / 2 ^ Suc i) / (h0 / 2 ^ i)) powr r"
      by (rule powr_divide [symmetric])
    also have "(h0 / 2 ^ Suc i) / (h0 / 2 ^ i) = 1 / 2" using h0 by simp
    finally have q: "?E1 / ?E0 = (1 / 2) powr r" .
    have pos: "0 < ?E0" "0 < ?E1" using C h0 by simp_all
    have "rate_at ?Es ?hs i
        = np_div (np_log (np_div (Fin ?E1) (Fin ?E0)))
                 (np_log (np_div (Fin (h0 / 2 ^ Suc i)) (Fin (h0 / 2 ^ i))))"
      using i lt by (simp add: rate_at_def)
    with power_law_rate [OF pos q hi r, folded half] show ?thesis by simp
  qed
  then have "\<forall>x\<in>set ?rs. \<exists>t. np_value x = Some t \<and> \<bar>t - r\<bar> \<le> (1 + \<bar>r\<bar>) / 2 ^ 48"
    by auto
  with run show ?thesis by (intro exI [of _ ?rs]) simp
qed

theorem rates_power_law_witness:
  "(0::real) < 3 \<and> (0::real) < 1/4 \<and> \<bar>2 :: real\<bar> \<le> 1022 \<and>
   (\<exists>rs. rates (map (\<lambda>i. Fin (3 * ((1/4) / 2 ^ i) powr 2)) [0..<3])
               (map (\<lambda>i. Fin ((1/4) / 2 ^ i)) [0..<3]) = Inr rs \<and>
          length rs = 3 - 1 \<and>
          (\<forall>x\<in>set rs. \<exists>t. np_value x = Some t \<and> \<bar>t - 2\<bar> \<le> (1 + \<bar>2\<bar>) / 2 ^ 48))"
proof -
  have h: "(0::real) < 3" "(0::real) < 1/4" "\<bar>2 :: real\<bar> \<le> 1022" by simp_all
  from rates_power_law [OF h, of 3] h show ?thesis by blast
qed

section \<open>Properties of the error norms\<close>

subsection \<open>What the two functions compute\<close>

lemma set_values_zeros:
  "set_values c (zeros lib V) = \<lparr>function_space = V, x_array = coefficients lib V c\<rparr>"
  by (simp add: set_values_def zeros_def coefficients_def cong: map_cong)

lemma interpolate_exact_eq:
  "interpolate_exact lib u u_ex \<sigma> =
     interpolate lib u (exact_interpolant lib (function_space (\<sigma> ! u)) u_ex) \<sigma>"
  by (simp add: interpolate_exact_def exact_interpolant_def split: pyobj.splits)

lemma interpolate_new:
  "interpolate lib (length \<sigma>) src (\<sigma> @ [zeros lib V]) =
     (case dof_values lib V src of
        Inl e \<Rightarrow> Inl e
      | Inr c \<Rightarrow> Inr (\<sigma> @ [\<lparr>function_space = V, x_array = coefficients lib V c\<rparr>]))"
  by (simp add: interpolate_def set_values_zeros zeros_def[symmetric] split: sum.splits)
     (simp add: zeros_def)

lemma rankwise_sub:
  "map length A = map length B \<Longrightarrow> rankwise (np_binop (-)) A B = Inr (map2 (map2 (-)) A B)"
proof (induction A arbitrary: B)
  case Nil
  then show ?case by simp
next
  case (Cons a A)
  then obtain b B' where B: "B = b # B'" by (cases B) auto
  with Cons show ?case by (simp add: np_binop_def)
qed

lemma rankwise_setitem:
  "map length T = map length D \<Longrightarrow> rankwise setitem_all T D = Inr D"
proof (induction T arbitrary: D)
  case Nil
  then show ?case by simp
next
  case (Cons a A)
  then obtain b B' where B: "D = b # B'" by (cases D) auto
  with Cons show ?case by (simp add: setitem_all_def)
qed

lemma shape_coefficients: "map length (coefficients lib V c) = map (dof_count lib V) [0..<comm_size (mesh V)]"
  by (simp add: coefficients_def comp_def)

lemma shape_zeros: "map length (x_array (zeros lib V)) = map (dof_count lib V) [0..<comm_size (mesh V)]"
  by (simp add: zeros_def comp_def)

lemma shape_map2: "map length A = map length B \<Longrightarrow> map length (map2 (map2 f) A B) = map length A"
proof (induction A arbitrary: B)
  case Nil
  then show ?case by simp
next
  case (Cons a A)
  then obtain b B' where B: "B = b # B'" by (cases B) auto
  with Cons show ?case by simp
qed

lemma error_L2_eq:
  assumes "uh < length \<sigma>"
  shows "error_L2 lib uh u_ex dr \<sigma> =
     (case FunctionSpace lib (mesh (function_space (\<sigma> ! uh)))
             (family (function_space (\<sigma> ! uh)), degree (function_space (\<sigma> ! uh)) + dr) of
        Inl e \<Rightarrow> Inl e
      | Inr W \<Rightarrow>
          (case dof_values lib W (FunctionValue (\<sigma> ! uh)) of
             Inl e \<Rightarrow> Inl e
           | Inr c1 \<Rightarrow>
               (case dof_values lib W (exact_interpolant lib W u_ex) of
                  Inl e \<Rightarrow> Inl e
                | Inr c2 \<Rightarrow>
                    (case allreduce np_add (map (inner_dx lib (L2_objects lib W c1 c2 ! 2) (L2_objects lib W c1 c2 ! 2))
                                          [0..<comm_size (mesh W)]) of
                       Inl e \<Rightarrow> Inl e
                     | Inr s \<Rightarrow> Inr (np_sqrt s, \<sigma> @ L2_objects lib W c1 c2)))))"
proof (cases "FunctionSpace lib (mesh (function_space (\<sigma> ! uh)))
             (family (function_space (\<sigma> ! uh)), degree (function_space (\<sigma> ! uh)) + dr)")
  case (Inl e)
  then show ?thesis by (simp add: error_L2_def)
next
  case (Inr W)
  let ?\<sigma>1 = "\<sigma> @ [zeros lib W]"
  have uh1: "?\<sigma>1 ! uh = \<sigma> ! uh" using assms by (simp add: nth_append)
  show ?thesis
  proof (cases "dof_values lib W (FunctionValue (\<sigma> ! uh))")
    case (Inl e)
    then show ?thesis
      using Inr uh1 by (simp add: error_L2_def Function_def interpolate_new)
  next
    case c1: (Inr c1)
    let ?f1 = "\<lparr>function_space = W, x_array = coefficients lib W c1\<rparr>"
    let ?\<sigma>2 = "\<sigma> @ [?f1]"
    have i1: "interpolate lib (length \<sigma>) (FunctionValue (?\<sigma>1 ! uh)) ?\<sigma>1 = Inr ?\<sigma>2"
      using c1 uh1 by (simp add: interpolate_new)
    have W3: "function_space ((?\<sigma>2 @ [zeros lib W]) ! length ?\<sigma>2) = W"
      by (simp add: zeros_def nth_append)
    show ?thesis
    proof (cases "dof_values lib W (exact_interpolant lib W u_ex)")
      case (Inl e)
      have "interpolate_exact lib (length ?\<sigma>2) u_ex (?\<sigma>2 @ [zeros lib W]) = Inl e"
        unfolding interpolate_exact_eq W3 interpolate_new using Inl by simp
      then show ?thesis
        using Inr c1 Inl i1 by (simp add: error_L2_def Function_def)
    next
      case c2: (Inr c2)
      let ?f2 = "\<lparr>function_space = W, x_array = coefficients lib W c2\<rparr>"
      let ?\<sigma>4 = "?\<sigma>2 @ [?f2]"
      let ?d = "map2 (map2 (-)) (coefficients lib W c1) (coefficients lib W c2)"
      let ?\<sigma>5 = "?\<sigma>4 @ [zeros lib W]"
      have i2: "interpolate_exact lib (length ?\<sigma>2) u_ex (?\<sigma>2 @ [zeros lib W]) = Inr ?\<sigma>4"
        unfolding interpolate_exact_eq W3 interpolate_new using c2 by simp
      have sh: "map length (coefficients lib W c1) = map length (coefficients lib W c2)"
        by (simp add: shape_coefficients)
      have x1: "x_array (?\<sigma>5 ! length \<sigma>) = coefficients lib W c1"
        by (simp add: nth_append)
      have x2: "x_array (?\<sigma>5 ! length ?\<sigma>2) = coefficients lib W c2"
        by (simp add: nth_append)
      have x3: "?\<sigma>5 ! length ?\<sigma>4 = zeros lib W"
        by (simp add: nth_append)
      have sub: "rankwise (np_binop (-)) (x_array (?\<sigma>5 ! length \<sigma>)) (x_array (?\<sigma>5 ! length ?\<sigma>2)) = Inr ?d"
        unfolding x1 x2 by (rule rankwise_sub [OF sh])
      have set: "rankwise setitem_all (x_array (?\<sigma>5 ! length ?\<sigma>4)) ?d = Inr ?d"
        unfolding x3 by (rule rankwise_setitem) (simp only: shape_zeros shape_map2 [OF sh] shape_coefficients)
      have upd: "?\<sigma>5[length ?\<sigma>4 := (?\<sigma>5 ! length ?\<sigma>4)\<lparr>x_array := ?d\<rparr>] = \<sigma> @ L2_objects lib W c1 c2"
        by (simp add: L2_objects_def zeros_def nth_append list_update_append)
      have asm: "assemble_scalar lib (Inner_dx (length ?\<sigma>4) (length ?\<sigma>4)) (\<sigma> @ L2_objects lib W c1 c2)
          = map (inner_dx lib (L2_objects lib W c1 c2 ! 2) (L2_objects lib W c1 c2 ! 2)) [0..<comm_size (mesh W)]"
        by (simp add: assemble_scalar_def nth_append L2_objects_def)
      show ?thesis
        unfolding error_L2_def Let_def Inr Function_def sum.case prod.case i1 i2 sub set upd asm
        using c1 c2 by simp
    qed
  qed
qed


lemma error_infinity_eq:
  assumes "u < length \<sigma>"
  shows "error_infinity lib u u_ex \<sigma> =
     (case dof_values lib (function_space (\<sigma> ! u))
             (exact_interpolant lib (function_space (\<sigma> ! u)) u_ex) of
        Inl e \<Rightarrow> Inl e
      | Inr c \<Rightarrow>
          (case rankwise abs_difference_max (x_array (\<sigma> ! u))
                  (coefficients lib (function_space (\<sigma> ! u)) c) of
             Inl e \<Rightarrow> Inl e
           | Inr ms \<Rightarrow>
               (case allreduce max ms of
                  Inl e \<Rightarrow> Inl e
                | Inr m \<Rightarrow>
                    Inr (m, \<sigma> @ [\<lparr>function_space = function_space (\<sigma> ! u),
                                   x_array = coefficients lib (function_space (\<sigma> ! u)) c\<rparr>]))))"
proof -
  let ?V = "function_space (\<sigma> ! u)"
  let ?\<sigma>1 = "\<sigma> @ [zeros lib ?V]"
  have V1: "function_space (?\<sigma>1 ! length \<sigma>) = ?V"
    by (simp add: zeros_def)
  show ?thesis
  proof (cases "dof_values lib ?V (exact_interpolant lib ?V u_ex)")
    case (Inl e)
    have "interpolate_exact lib (length \<sigma>) u_ex ?\<sigma>1 = Inl e"
      unfolding interpolate_exact_eq V1 interpolate_new using Inl by simp
    then show ?thesis
      using Inl by (simp add: error_infinity_def Function_def)
  next
    case (Inr c)
    let ?f = "\<lparr>function_space = ?V, x_array = coefficients lib ?V c\<rparr>"
    have i: "interpolate_exact lib (length \<sigma>) u_ex ?\<sigma>1 = Inr (\<sigma> @ [?f])"
      unfolding interpolate_exact_eq V1 interpolate_new using Inr by simp
    have x: "x_array ((\<sigma> @ [?f]) ! u) = x_array (\<sigma> ! u)"
      "x_array ((\<sigma> @ [?f]) ! length \<sigma>) = coefficients lib ?V c"
      using assms by (simp_all add: nth_append)
    show ?thesis
      unfolding error_infinity_def Function_def prod.case i sum.case x
      using Inr by (simp split: sum.splits)
  qed
qed

lemma fold_max_Max: "fold max xs (x::real) = Max (set (x # xs))"
  by (rule Max.set_eq_fold [symmetric])


lemma abs_difference_max_same_length:
  assumes "length a = length b" "a \<noteq> []"
  shows "abs_difference_max a b = Inr (Max (set (map2 (\<lambda>x y. \<bar>x - y\<bar>) a b)))"
proof -
  obtain x a' where a: "a = x # a'" using assms by (cases a) auto
  then obtain y b' where b: "b = y # b'" using assms by (cases b) auto
  have "map abs (map2 (-) a b) = map2 (\<lambda>x y. \<bar>x - y\<bar>) a b"
    by (simp add: map_zip_map comp_def split_def zip_map_fst_snd)
  then show ?thesis
    using assms a b
    by (simp add: abs_difference_max_def np_binop_def np_max_def fold_max_Max del: Max.set_eq_fold)
qed

lemma rankwise_abs_difference_max:
  assumes "map length A = map length B" "\<forall>a\<in>set A. a \<noteq> []"
  shows "rankwise abs_difference_max A B
       = Inr (map (\<lambda>xs. Max (set xs)) (map2 (map2 (\<lambda>x y. \<bar>x - y\<bar>)) A B))"
  using assms
proof (induction A arbitrary: B)
  case Nil
  then show ?case by simp
next
  case (Cons a A)
  then obtain b B' where B: "B = b # B'" by (cases B) auto
  with Cons show ?case by (simp add: abs_difference_max_same_length)
qed

lemma nodal_simps:
  "world_size nodal_library = 1"
  "dof_count nodal_library V r = 2"
  "element_points nodal_library V = two_nodes"
  "dof_values nodal_library = nodal_values"
  "inner_dx nodal_library f g r =
     fold np_add (map2 (\<lambda>a b. round64 (a * b)) (x_array f ! r) (x_array g ! r)) (Fin 0)"
  by (simp_all add: nodal_library_def)

subsection \<open>The infinity norm is the largest deviation of a coefficient\<close>





subsection \<open>The \<open>L\<^sup>2\<close> norm is the square root of an assembled sum\<close>

lemma length_coefficients: "length (coefficients lib V c) = comm_size (mesh V)"
  by (simp add: coefficients_def)

lemma nth_coefficients:
  "r < comm_size (mesh V) \<Longrightarrow> coefficients lib V c ! r = map (c r) [0..<dof_count lib V r]"
  by (simp add: coefficients_def)

lemma FunctionSpace_fields:
  "FunctionSpace lib msh (fam, p) = Inr W \<Longrightarrow> mesh W = msh \<and> family W = fam \<and> degree W = p"
  by (auto simp: FunctionSpace_def split: option.splits)

lemma allreduce_nonempty: "vs \<noteq> [] \<Longrightarrow> \<exists>s. allreduce f vs = Inr s"
  by (cases vs) (simp_all add: allreduce_def)




lemma nodal_FunctionSpace:
  "FunctionSpace nodal_library (mesh unit_space) (family unit_space, degree unit_space + 3) = Inr raised_space"
  by (simp add: FunctionSpace_def nodal_library_def unit_space_def raised_space_def)

lemma nodal_coefficients:
  "coefficients nodal_library V c = map (\<lambda>r. [c r 0, c r 1]) [0..<comm_size (mesh V)]"
  by (simp add: coefficients_def nodal_simps upt_rec numeral_2_eq_2)

lemma sqrt_25: "sqrt 25 = 5"
  using real_sqrt_abs [of 5] by simp

lemma sample_L2_run:
  "error_L2 nodal_library 0 (Callable fst) 3 sample_store =
     Inr (Fin 5, sample_store @
       [\<lparr>function_space = raised_space, x_array = [[3, 5]]\<rparr>,
        \<lparr>function_space = raised_space, x_array = [[0, 1]]\<rparr>,
        \<lparr>function_space = raised_space, x_array = [[3, 4]]\<rparr>])"
proof -
  have u: "0 < length sample_store" by (simp add: sample_store_def)
  have V: "function_space (sample_store ! 0) = unit_space" by (simp add: sample_store_def)
  show ?thesis
    unfolding error_L2_eq [OF u] V nodal_FunctionSpace sum.case
    by (simp add: nodal_simps nodal_values_def exact_interpolant_def L2_objects_def
        nodal_coefficients raised_space_def sample_store_def two_nodes_def allreduce_def
        np_add_finite np_sqrt_nonneg sqrt_25)
qed






subsection \<open>The higher-order space\<close>

text \<open>
  C9: after a call of \<^verbatim>\<open>error_L2\<close> that returns, the store is the old one with three more
  functions, and each of them lives in the space \<open>W\<close> on the mesh and with the element
  family of the space of \<open>uh\<close>, at the degree of \<open>uh\<close> plus \<open>degree_raise\<close>; the default of
  \<open>degree_raise\<close> is 3.
\<close>

theorem error_L2_space:
  assumes u: "uh < length \<sigma>" and V: "V = function_space (\<sigma> ! uh)"
    and run: "error_L2 lib uh u_ex degree_raise \<sigma> = Inr (v, \<sigma>')"
  shows "degree_raise_default = 3 \<and>
     (\<exists>W. FunctionSpace lib (mesh V) (family V, degree V + degree_raise) = Inr W \<and>
        mesh W = mesh V \<and> family W = family V \<and> degree W = degree V + degree_raise \<and>
        length \<sigma>' = length \<sigma> + 3 \<and> take (length \<sigma>) \<sigma>' = \<sigma> \<and>
        (\<forall>a. length \<sigma> \<le> a \<and> a < length \<sigma>' \<longrightarrow> function_space (\<sigma>' ! a) = W))"
proof
  show "degree_raise_default = 3" by (simp add: degree_raise_default_def)
  from run obtain W c1 c2 where
    W: "FunctionSpace lib (mesh V) (family V, degree V + degree_raise) = Inr W"
    and s: "\<sigma>' = \<sigma> @ L2_objects lib W c1 c2"
    unfolding error_L2_eq [OF u] V [symmetric] by (auto split: sum.splits)
  have "function_space (\<sigma>' ! a) = W" if "length \<sigma> \<le> a" "a < length \<sigma>'" for a
  proof -
    from that s obtain k where k: "a = length \<sigma> + k" "k < 3"
      by (auto simp: L2_objects_def le_iff_add)
    then have "k = 0 \<or> k = 1 \<or> k = 2" by auto
    then show ?thesis using k s by (auto simp: L2_objects_def nth_append)
  qed
  with W s FunctionSpace_fields [OF W]
  show "\<exists>W. FunctionSpace lib (mesh V) (family V, degree V + degree_raise) = Inr W \<and>
        mesh W = mesh V \<and> family W = family V \<and> degree W = degree V + degree_raise \<and>
        length \<sigma>' = length \<sigma> + 3 \<and> take (length \<sigma>) \<sigma>' = \<sigma> \<and>
        (\<forall>a. length \<sigma> \<le> a \<and> a < length \<sigma>' \<longrightarrow> function_space (\<sigma>' ! a) = W)"
    by (auto simp: L2_objects_def)
qed

theorem error_L2_space_witness:
  "degree_raise_default = 3 \<and>
   (\<exists>W. FunctionSpace nodal_library (mesh unit_space) (family unit_space, degree unit_space + 3) = Inr W \<and>
      mesh W = mesh unit_space \<and> family W = family unit_space \<and> degree W = degree unit_space + 3 \<and>
      function_space ((sample_store @
         [\<lparr>function_space = raised_space, x_array = [[3, 5]]\<rparr>,
          \<lparr>function_space = raised_space, x_array = [[0, 1]]\<rparr>,
          \<lparr>function_space = raised_space, x_array = [[3, 4]]\<rparr>]) ! 1) = W)"
proof -
  have u: "0 < length sample_store" by (simp add: sample_store_def)
  have V: "unit_space = function_space (sample_store ! 0)" by (simp add: sample_store_def)
  from error_L2_space [OF u V sample_L2_run]
  show ?thesis by (auto simp: sample_store_def)
qed

subsection \<open>No check of the representation of the exact solution\<close>

lemma rankwise_failure:
  "rankwise f A B = Inl e \<Longrightarrow> \<exists>a b. f a b = Inl e"
  by (induction f A B rule: rankwise.induct) (auto split: sum.splits)

lemma np_binop_failure: "np_binop f a b = Inl e \<Longrightarrow> e = ValueError"
  by (auto simp: np_binop_def split: if_splits)

lemma setitem_all_failure: "setitem_all t v = Inl e \<Longrightarrow> e = ValueError"
  by (auto simp: setitem_all_def split: if_splits)

lemma abs_difference_max_failure: "abs_difference_max a b = Inl e \<Longrightarrow> e = ValueError"
  by (auto simp: abs_difference_max_def np_max_def dest: np_binop_failure split: sum.splits list.splits)

lemma allreduce_failure: "allreduce f vs = Inl e \<Longrightarrow> e = LibraryError ''empty communicator''"
  by (auto simp: allreduce_def split: list.splits)

lemma interpolate_failure: "interpolate lib u src \<sigma> = Inl e \<Longrightarrow> library_raises lib e"
  by (auto simp: interpolate_def library_raises_def split: sum.splits)

lemma interpolate_exact_failure: "interpolate_exact lib u u_ex \<sigma> = Inl e \<Longrightarrow> library_raises lib e"
  unfolding interpolate_exact_eq by (rule interpolate_failure)

lemma FunctionSpace_failure: "FunctionSpace lib msh el = Inl e \<Longrightarrow> library_raises lib e"
  by (auto simp: FunctionSpace_def library_raises_def split: option.splits)

lemma error_infinity_failure:
  assumes "error_infinity lib u u_ex \<sigma> = Inl e"
  shows "library_raises lib e \<or> e = ValueError \<or> e = LibraryError ''empty communicator''"
  using assms
  by (auto simp: error_infinity_def Function_def split: sum.splits
      dest!: interpolate_exact_failure rankwise_failure abs_difference_max_failure allreduce_failure)

lemma error_L2_failure:
  assumes "error_L2 lib u u_ex dr \<sigma> = Inl e"
  shows "library_raises lib e \<or> e = ValueError \<or> e = LibraryError ''empty communicator''"
  using assms
  by (auto simp: error_L2_def Function_def Let_def split: sum.splits
      dest!: interpolate_exact_failure interpolate_failure FunctionSpace_failure rankwise_failure
        np_binop_failure setitem_all_failure allreduce_failure)

lemma nodal_library_never_unsupported:
  "\<not> library_raises nodal_library UnsupportedExactRepresentation"
  by (auto simp: library_raises_def nodal_library_def nodal_values_def
      split: interpolant.splits pyobj.splits if_splits)

lemma error_infinity_succeeds:
  assumes u: "u_h < length \<sigma>" and V: "V = function_space (\<sigma> ! u_h)"
    and shape: "map length (x_array (\<sigma> ! u_h)) = map (dof_count lib V) [0..<comm_size (mesh V)]"
    and c: "dof_values lib V (exact_interpolant lib V u_ex) = Inr c"
    and ranks: "0 < comm_size (mesh V)"
    and dofs: "\<forall>r<comm_size (mesh V). 0 < dof_count lib V r"
  shows "\<exists>v \<sigma>'. error_infinity lib u_h u_ex \<sigma> = Inr (v, \<sigma>')"
proof -
  let ?A = "x_array (\<sigma> ! u_h)"
  let ?B = "coefficients lib V c"
  have sh: "map length ?A = map length ?B"
    using shape by (simp add: shape_coefficients)
  have lenA: "length ?A = comm_size (mesh V)"
    using shape by (metis length_map length_upt minus_nat.diff_0)
  have neA: "\<forall>a\<in>set ?A. a \<noteq> []"
  proof
    fix a assume "a \<in> set ?A"
    then obtain r where r: "r < length ?A" "a = ?A ! r" by (auto simp: in_set_conv_nth)
    have "length (?A ! r) = map length ?A ! r" using r by simp
    also have "\<dots> = dof_count lib V r" using r lenA unfolding shape by simp
    finally show "a \<noteq> []" using r dofs lenA by auto
  qed
  let ?ms = "map (\<lambda>xs. Max (set xs)) (map2 (map2 (\<lambda>x y. \<bar>x - y\<bar>)) ?A ?B)"
  have rw: "rankwise abs_difference_max ?A ?B = Inr ?ms"
    by (rule rankwise_abs_difference_max [OF sh neA])
  have "length ?ms = comm_size (mesh V)"
    using lenA by (simp add: length_coefficients)
  then have "?ms \<noteq> []" using ranks by auto
  from allreduce_nonempty [OF this] obtain m where m: "allreduce max ?ms = Inr m" by blast
  show ?thesis
    unfolding error_infinity_eq [OF u] V [symmetric] c sum.case rw m by simp
qed

lemma error_L2_succeeds:
  assumes u: "uh < length \<sigma>" and V: "V = function_space (\<sigma> ! uh)"
    and W: "FunctionSpace lib (mesh V) (family V, degree V + degree_raise) = Inr W"
    and c1: "dof_values lib W (FunctionValue (\<sigma> ! uh)) = Inr c1"
    and c2: "dof_values lib W (exact_interpolant lib W u_ex) = Inr c2"
    and ranks: "0 < comm_size (mesh W)"
  shows "\<exists>v \<sigma>'. error_L2 lib uh u_ex degree_raise \<sigma> = Inr (v, \<sigma>')"
proof -
  let ?e = "L2_objects lib W c1 c2 ! 2"
  have "map (inner_dx lib ?e ?e) [0..<comm_size (mesh W)] \<noteq> []" using ranks by simp
  from allreduce_nonempty [OF this] obtain s where
    "allreduce np_add (map (inner_dx lib ?e ?e) [0..<comm_size (mesh W)]) = Inr s" by blast
  then show ?thesis
    unfolding error_L2_eq [OF u] V [symmetric] W c1 c2 sum.case by simp
qed

lemma exact_interpolant_object:
  "\<forall>e. u_ex \<noteq> Expr e \<Longrightarrow> exact_interpolant lib V u_ex = Object u_ex"
  by (cases u_ex) (simp_all add: exact_interpolant_def)

lemma sample_shape:
  "map length (x_array (sample_store ! 0))
     = map (dof_count nodal_library unit_space) [0..<comm_size (mesh unit_space)]"
  by (simp add: sample_store_def unit_space_def nodal_simps)

text \<open>
  C3, as the notebook behaves.  A string is neither a UFL expression nor a function.
  Both error functions take the \<^verbatim>\<open>else\<close> branch with it and hand it to \<^verbatim>\<open>interpolate\<close>, and
  what ends the call is the exception of the library, a \<^verbatim>\<open>TypeError\<close> for an object that
  cannot be called, and not an error about the representation of the exact solution.
\<close>

theorem unsupported_object_counterexample:
  "error_L2 nodal_library 0 (Other ''abc'') 3 sample_store = Inl (LibraryError ''TypeError'') \<and>
   error_infinity nodal_library 0 (Other ''abc'') sample_store = Inl (LibraryError ''TypeError'') \<and>
   LibraryError ''TypeError'' \<noteq> UnsupportedExactRepresentation"
proof (intro conjI)
  have u: "0 < length sample_store" by (simp add: sample_store_def)
  have V: "function_space (sample_store ! 0) = unit_space" by (simp add: sample_store_def)
  show "error_L2 nodal_library 0 (Other ''abc'') 3 sample_store = Inl (LibraryError ''TypeError'')"
    unfolding error_L2_eq [OF u] V nodal_FunctionSpace sum.case
    by (simp add: nodal_simps nodal_values_def exact_interpolant_def)
  show "error_infinity nodal_library 0 (Other ''abc'') sample_store = Inl (LibraryError ''TypeError'')"
    unfolding error_infinity_eq [OF u] V
    by (simp add: nodal_simps nodal_values_def exact_interpolant_def)
  show "LibraryError ''TypeError'' \<noteq> UnsupportedExactRepresentation" by simp
qed

text \<open>
  C3, amended: neither error function checks the representation of the exact solution.
  A UFL expression is compiled to an \<^verbatim>\<open>Expression\<close> at the interpolation points of the
  target space, and that is interpolated.  Every other argument \<open>u_ex\<close>, a function or not,
  is handed to the library's \<^verbatim>\<open>interpolate\<close> as it is.  If the library refuses it there
  with an exception, that exception is what \<^verbatim>\<open>error_infinity\<close> ends in, and \<^verbatim>\<open>error_L2\<close> too
  once it has its space \<open>W\<close> and the interpolation of \<open>uh\<close>.  If the library accepts it,
  both functions return a value: \<^verbatim>\<open>error_infinity\<close> for a function \<open>uh\<close> whose arrays have the
  layout of its space, with a coefficient on every process, and \<^verbatim>\<open>error_L2\<close> once it has \<open>W\<close>
  and the interpolation of \<open>uh\<close>; the communicator has a process.  Neither function ever
  fails with \<open>UnsupportedExactRepresentation\<close> unless the library itself raises it.
\<close>

theorem exact_solution_kind_unchecked:
  assumes kind: "\<forall>e. u_ex \<noteq> Expr e"
    and u: "uh < length \<sigma>" and V: "V = function_space (\<sigma> ! uh)"
  shows "interpolate_exact lib a (Expr e) \<sigma> =
           interpolate lib a (Object (Expression e (element_points lib (function_space (\<sigma> ! a))))) \<sigma> \<and>
         interpolate_exact lib a u_ex \<sigma> = interpolate lib a (Object u_ex) \<sigma> \<and>
         (dof_values lib V (Object u_ex) = Inl err \<longrightarrow> error_infinity lib uh u_ex \<sigma> = Inl err) \<and>
         (FunctionSpace lib (mesh V) (family V, degree V + degree_raise) = Inr W \<and>
          dof_values lib W (FunctionValue (\<sigma> ! uh)) = Inr c1 \<and>
          dof_values lib W (Object u_ex) = Inl err
            \<longrightarrow> error_L2 lib uh u_ex degree_raise \<sigma> = Inl err) \<and>
         (map length (x_array (\<sigma> ! uh)) = map (dof_count lib V) [0..<comm_size (mesh V)] \<and>
          dof_values lib V (Object u_ex) = Inr c \<and>
          0 < comm_size (mesh V) \<and> (\<forall>r<comm_size (mesh V). 0 < dof_count lib V r)
            \<longrightarrow> (\<exists>v \<sigma>'. error_infinity lib uh u_ex \<sigma> = Inr (v, \<sigma>'))) \<and>
         (FunctionSpace lib (mesh V) (family V, degree V + degree_raise) = Inr W \<and>
          dof_values lib W (FunctionValue (\<sigma> ! uh)) = Inr c1 \<and>
          dof_values lib W (Object u_ex) = Inr c2 \<and> 0 < comm_size (mesh W)
            \<longrightarrow> (\<exists>v \<sigma>'. error_L2 lib uh u_ex degree_raise \<sigma> = Inr (v, \<sigma>'))) \<and>
         (\<not> library_raises lib UnsupportedExactRepresentation \<longrightarrow>
            error_L2 lib uh u_ex degree_raise \<sigma> \<noteq> Inl UnsupportedExactRepresentation \<and>
            error_infinity lib uh u_ex \<sigma> \<noteq> Inl UnsupportedExactRepresentation)"
proof (intro conjI impI)
  note ob = exact_interpolant_object [OF kind]
  show "interpolate_exact lib a (Expr e) \<sigma> =
      interpolate lib a (Object (Expression e (element_points lib (function_space (\<sigma> ! a))))) \<sigma>"
    by (simp add: interpolate_exact_def)
  show "interpolate_exact lib a u_ex \<sigma> = interpolate lib a (Object u_ex) \<sigma>"
    using kind by (cases u_ex) (simp_all add: interpolate_exact_def)
  show "error_infinity lib uh u_ex \<sigma> = Inl err" if "dof_values lib V (Object u_ex) = Inl err"
    unfolding error_infinity_eq [OF u] V [symmetric] ob using that by simp
  show "error_L2 lib uh u_ex degree_raise \<sigma> = Inl err"
    if "FunctionSpace lib (mesh V) (family V, degree V + degree_raise) = Inr W \<and>
        dof_values lib W (FunctionValue (\<sigma> ! uh)) = Inr c1 \<and>
        dof_values lib W (Object u_ex) = Inl err"
    unfolding error_L2_eq [OF u] V [symmetric] ob using that by simp
  show "\<exists>v \<sigma>'. error_infinity lib uh u_ex \<sigma> = Inr (v, \<sigma>')"
    if "map length (x_array (\<sigma> ! uh)) = map (dof_count lib V) [0..<comm_size (mesh V)] \<and>
        dof_values lib V (Object u_ex) = Inr c \<and>
        0 < comm_size (mesh V) \<and> (\<forall>r<comm_size (mesh V). 0 < dof_count lib V r)"
    using that by (intro error_infinity_succeeds [OF u V, where c = c]) (simp_all add: ob)
  show "\<exists>v \<sigma>'. error_L2 lib uh u_ex degree_raise \<sigma> = Inr (v, \<sigma>')"
    if "FunctionSpace lib (mesh V) (family V, degree V + degree_raise) = Inr W \<and>
        dof_values lib W (FunctionValue (\<sigma> ! uh)) = Inr c1 \<and>
        dof_values lib W (Object u_ex) = Inr c2 \<and> 0 < comm_size (mesh W)"
    using that by (intro error_L2_succeeds [OF u V, where W = W and ?c1.0 = c1 and ?c2.0 = c2])
      (simp_all add: ob)
next
  assume n: "\<not> library_raises lib UnsupportedExactRepresentation"
  show "error_L2 lib uh u_ex degree_raise \<sigma> \<noteq> Inl UnsupportedExactRepresentation"
    using error_L2_failure [of lib uh u_ex degree_raise \<sigma> UnsupportedExactRepresentation] n
    by auto
  show "error_infinity lib uh u_ex \<sigma> \<noteq> Inl UnsupportedExactRepresentation"
    using error_infinity_failure [of lib uh u_ex \<sigma> UnsupportedExactRepresentation] n
    by auto
qed

theorem exact_solution_kind_unchecked_witness:
  "(\<forall>e. Other ''abc'' \<noteq> Expr e) \<and> (\<forall>e. Callable fst \<noteq> Expr e) \<and> 0 < length sample_store \<and>
   interpolate_exact nodal_library 0 (Other ''abc'') sample_store
     = interpolate nodal_library 0 (Object (Other ''abc'')) sample_store \<and>
   dof_values nodal_library unit_space (Object (Other ''abc'')) = Inl (LibraryError ''TypeError'') \<and>
   error_infinity nodal_library 0 (Other ''abc'') sample_store = Inl (LibraryError ''TypeError'') \<and>
   dof_values nodal_library raised_space (Object (Other ''abc'')) = Inl (LibraryError ''TypeError'') \<and>
   error_L2 nodal_library 0 (Other ''abc'') 3 sample_store = Inl (LibraryError ''TypeError'') \<and>
   \<not> library_raises nodal_library UnsupportedExactRepresentation \<and>
   error_L2 nodal_library 0 (Other ''abc'') 3 sample_store \<noteq> Inl UnsupportedExactRepresentation \<and>
   error_infinity nodal_library 0 (Other ''abc'') sample_store \<noteq> Inl UnsupportedExactRepresentation \<and>
   dof_values nodal_library unit_space (Object (Callable fst)) = Inr (\<lambda>r i. fst (two_nodes ! i)) \<and>
   (\<exists>v \<sigma>'. error_infinity nodal_library 0 (Callable fst) sample_store = Inr (v, \<sigma>')) \<and>
   dof_values nodal_library raised_space (Object (Callable fst)) = Inr (\<lambda>r i. fst (two_nodes ! i)) \<and>
   (\<exists>v \<sigma>'. error_L2 nodal_library 0 (Callable fst) 3 sample_store = Inr (v, \<sigma>'))"
proof -
  have k1: "\<forall>e. Other ''abc'' \<noteq> Expr e" and k2: "\<forall>e. Callable fst \<noteq> Expr e" by simp_all
  have u: "0 < length sample_store" by (simp add: sample_store_def)
  have V: "unit_space = function_space (sample_store ! 0)" by (simp add: sample_store_def)
  have c1: "dof_values nodal_library raised_space (FunctionValue (sample_store ! 0))
      = Inr (\<lambda>r i. x_array (sample_store ! 0) ! r ! i)"
    by (simp add: nodal_simps nodal_values_def)
  have r1: "dof_values nodal_library unit_space (Object (Other ''abc'')) = Inl (LibraryError ''TypeError'')"
    and r2: "dof_values nodal_library raised_space (Object (Other ''abc'')) = Inl (LibraryError ''TypeError'')"
    by (simp_all add: nodal_simps nodal_values_def)
  have a1: "dof_values nodal_library unit_space (Object (Callable fst)) = Inr (\<lambda>r i. fst (two_nodes ! i))"
    and a2: "dof_values nodal_library raised_space (Object (Callable fst)) = Inr (\<lambda>r i. fst (two_nodes ! i))"
    by (simp_all add: nodal_simps nodal_values_def)
  have ranks: "0 < comm_size (mesh unit_space)" "0 < comm_size (mesh raised_space)"
    by (simp_all add: unit_space_def raised_space_def)
  have dofs: "\<forall>r<comm_size (mesh unit_space). 0 < dof_count nodal_library unit_space r"
    by (simp add: nodal_simps)
  from exact_solution_kind_unchecked [OF k1 u V, of nodal_library 0 _ "LibraryError ''TypeError''" 3
      raised_space "\<lambda>r i. x_array (sample_store ! 0) ! r ! i"]
    r1 r2 c1 nodal_FunctionSpace nodal_library_never_unsupported
  have A: "interpolate_exact nodal_library 0 (Other ''abc'') sample_store
       = interpolate nodal_library 0 (Object (Other ''abc'')) sample_store \<and>
     error_infinity nodal_library 0 (Other ''abc'') sample_store = Inl (LibraryError ''TypeError'') \<and>
     error_L2 nodal_library 0 (Other ''abc'') 3 sample_store = Inl (LibraryError ''TypeError'') \<and>
     error_L2 nodal_library 0 (Other ''abc'') 3 sample_store \<noteq> Inl UnsupportedExactRepresentation \<and>
     error_infinity nodal_library 0 (Other ''abc'') sample_store \<noteq> Inl UnsupportedExactRepresentation"
    by blast
  from exact_solution_kind_unchecked [OF k2 u V, of nodal_library 0 _ _ 3
      raised_space "\<lambda>r i. x_array (sample_store ! 0) ! r ! i" "\<lambda>r i. fst (two_nodes ! i)"
      "\<lambda>r i. fst (two_nodes ! i)"]
    a1 a2 c1 nodal_FunctionSpace sample_shape ranks dofs
  have B: "(\<exists>v \<sigma>'. error_infinity nodal_library 0 (Callable fst) sample_store = Inr (v, \<sigma>')) \<and>
     (\<exists>v \<sigma>'. error_L2 nodal_library 0 (Callable fst) 3 sample_store = Inr (v, \<sigma>'))"
    by blast
  from A B k1 k2 u r1 r2 a1 a2 nodal_library_never_unsupported show ?thesis by blast
qed


section \<open>Properties of the convergence studies\<close>

subsection \<open>Values behind the store\<close>

lemma error_L2_value:
  "u < length \<sigma> \<Longrightarrow> error_L2 lib u u_ex dr \<sigma> =
     (case L2_value lib (\<sigma> ! u) u_ex dr of Inl e \<Rightarrow> Inl e | Inr (v, objs) \<Rightarrow> Inr (v, \<sigma> @ objs))"
  by (simp add: error_L2_eq L2_value_def split: sum.splits)

lemma error_infinity_value:
  "u < length \<sigma> \<Longrightarrow> error_infinity lib u u_ex \<sigma> =
     (case infinity_value lib (\<sigma> ! u) u_ex of Inl e \<Rightarrow> Inl e | Inr (v, objs) \<Rightarrow> Inr (v, \<sigma> @ objs))"
  by (simp add: error_infinity_eq infinity_value_def split: sum.splits)

lemma LinearProblem_solve_new:
  "LinearProblem_solve lib V f (length \<sigma>) (\<sigma> @ [bc]) =
     (case lu_solve lib V f bc of
        Inl e \<Rightarrow> Inl e
      | Inr c \<Rightarrow> Inr (Suc (length \<sigma>), \<sigma> @ [bc, \<lparr>function_space = V, x_array = coefficients lib V c\<rparr>]))"
  by (simp add: LinearProblem_solve_def Function_def nth_append list_update_append set_values_zeros
      split: sum.splits)

lemma solve_poisson_value:
  "solve_poisson lib N p \<sigma> =
     (case poisson_solution lib N p of
        Inl e \<Rightarrow> Inl e
      | Inr (bc, sol, ue) \<Rightarrow> Inr ((Suc (length \<sigma>), ue), \<sigma> @ [bc, sol]))"
  by (simp add: solve_poisson_def poisson_solution_def Let_def Function_def interpolate_new
      LinearProblem_solve_new split: sum.splits)

lemma convergence_loop_samples:
  assumes solve: "\<And>N \<sigma>. case solve N \<sigma> of
                      Inl e \<Rightarrow> S N = Inl e
                    | Inr ((a, ue), \<sigma>') \<Rightarrow> a < length \<sigma>' \<and> S N = Inr (\<sigma>' ! a)"
    and nrm: "\<And>a \<sigma>. a < length \<sigma> \<Longrightarrow> map_sum id fst (nrm a \<sigma>) = G (\<sigma> ! a)"
  shows "map_sum id samples (convergence_loop solve nrm ps st) = samples_loop S G ps (samples st)"
proof (induction ps arbitrary: st)
  case Nil
  show ?case by simp
next
  case (Cons iN ps)
  obtain i N where iN: "iN = (i, N)" by (cases iN)
  show ?case
  proof (cases "solve N (nb_heap st)")
    case (Inl e)
    with solve [of N "nb_heap st"] show ?thesis by (simp add: iN)
  next
    case (Inr r)
    obtain a ue \<sigma>1 where r: "r = ((a, ue), \<sigma>1)" by (metis surj_pair)
    from solve [of N "nb_heap st"] Inr r have a: "a < length \<sigma>1" and S: "S N = Inr (\<sigma>1 ! a)"
      by simp_all
    show ?thesis
    proof (cases "nrm a \<sigma>1")
      case (Inl e)
      with nrm [OF a] have "G (\<sigma>1 ! a) = Inl e" by simp
      with Inr r S Inl show ?thesis by (simp add: iN)
    next
      case nr: (Inr q)
      obtain E \<sigma>2 where q: "q = (E, \<sigma>2)" by (cases q)
      from nrm [OF a] nr q have G: "G (\<sigma>1 ! a) = Inr E" by simp
      show ?thesis
      proof (cases "store_sample (nb_Es st, nb_hs st) i E N")
        case (Inl e)
        with Inr r S nr q G show ?thesis by (simp add: iN samples_def)
      next
        case sm: (Inr Eh)
        obtain Es' hs' where Eh: "Eh = (Es', hs')" by (cases Eh)
        show ?thesis
          using Inr r S nr q G sm Eh
            Cons.IH [of "st\<lparr>nb_heap := \<sigma>2, nb_uh := Some a, nb_u_ex := Some ue,
                          nb_Es := Es', nb_hs := hs'\<rparr>"]
          by (simp add: iN samples_def)
      qed
    qed
  qed
qed

lemma solve_poisson_samples:
  "case solve_poisson lib N p \<sigma> of
     Inl e \<Rightarrow> map_sum id (fst \<circ> snd) (poisson_solution lib N p) = Inl e
   | Inr ((a, ue), \<sigma>') \<Rightarrow>
       a < length \<sigma>' \<and> map_sum id (fst \<circ> snd) (poisson_solution lib N p) = Inr (\<sigma>' ! a)"
  by (simp add: solve_poisson_value nth_append split: sum.splits prod.splits)

lemma norm_L2_samples:
  "a < length \<sigma> \<Longrightarrow>
     map_sum id fst (norm_L2 lib a \<sigma>)
       = map_sum id fst (L2_value lib (\<sigma> ! a) (Callable u_numpy) degree_raise_default)"
  by (simp add: norm_L2_def error_L2_value split: sum.splits prod.splits)

lemma norm_infinity_samples:
  "a < length \<sigma> \<Longrightarrow>
     map_sum id fst (norm_infinity lib a \<sigma>)
       = map_sum id (Fin \<circ> fst) (infinity_value lib (\<sigma> ! a) (Callable u_numpy))"
  by (simp add: norm_infinity_def error_infinity_value split: sum.splits prod.splits)

lemma study_L2_samples:
  "map_sum id samples (study_L2 lib p xs st) =
     samples_loop (\<lambda>N. map_sum id (fst \<circ> snd) (poisson_solution lib N p))
       (\<lambda>f. map_sum id fst (L2_value lib f (Callable u_numpy) degree_raise_default))
       (enumerate 0 xs) (replicate (length xs) (Fin 0), replicate (length xs) (Fin 0))"
proof -
  have "map_sum id samples (convergence_loop (\<lambda>N. solve_poisson lib N p) (norm_L2 lib) ps st0) =
     samples_loop (\<lambda>N. map_sum id (fst \<circ> snd) (poisson_solution lib N p))
       (\<lambda>f. map_sum id fst (L2_value lib f (Callable u_numpy) degree_raise_default))
       ps (samples st0)" for ps st0
  proof (rule convergence_loop_samples)
    show "case solve_poisson lib N p \<sigma> of
        Inl e \<Rightarrow> map_sum id (fst \<circ> snd) (poisson_solution lib N p) = Inl e
      | Inr ((a, ue), \<sigma>') \<Rightarrow>
          a < length \<sigma>' \<and> map_sum id (fst \<circ> snd) (poisson_solution lib N p) = Inr (\<sigma>' ! a)" for N \<sigma>
      by (rule solve_poisson_samples)
    show "map_sum id fst (norm_L2 lib a \<sigma>)
        = map_sum id fst (L2_value lib (\<sigma> ! a) (Callable u_numpy) degree_raise_default)"
      if "a < length \<sigma>" for a \<sigma>
      using that by (rule norm_L2_samples)
  qed
  then show ?thesis
    by (simp add: study_L2_def convergence_study_def samples_def)
qed

lemma study_infinity_samples:
  "map_sum id samples (study_infinity lib p xs st) =
     samples_loop (\<lambda>N. map_sum id (fst \<circ> snd) (poisson_solution lib N p))
       (\<lambda>f. map_sum id (Fin \<circ> fst) (infinity_value lib f (Callable u_numpy)))
       (enumerate 0 xs) (replicate (length xs) (Fin 0), replicate (length xs) (Fin 0))"
proof -
  have "map_sum id samples (convergence_loop (\<lambda>N. solve_poisson lib N p) (norm_infinity lib) ps st0) =
     samples_loop (\<lambda>N. map_sum id (fst \<circ> snd) (poisson_solution lib N p))
       (\<lambda>f. map_sum id (Fin \<circ> fst) (infinity_value lib f (Callable u_numpy)))
       ps (samples st0)" for ps st0
  proof (rule convergence_loop_samples)
    show "case solve_poisson lib N p \<sigma> of
        Inl e \<Rightarrow> map_sum id (fst \<circ> snd) (poisson_solution lib N p) = Inl e
      | Inr ((a, ue), \<sigma>') \<Rightarrow>
          a < length \<sigma>' \<and> map_sum id (fst \<circ> snd) (poisson_solution lib N p) = Inr (\<sigma>' ! a)" for N \<sigma>
      by (rule solve_poisson_samples)
    show "map_sum id fst (norm_infinity lib a \<sigma>)
        = map_sum id (Fin \<circ> fst) (infinity_value lib (\<sigma> ! a) (Callable u_numpy))"
      if "a < length \<sigma>" for a \<sigma>
      using that by (rule norm_infinity_samples)
  qed
  then show ?thesis
    by (simp add: study_infinity_def convergence_study_def samples_def)
qed

lemma again_Inr:
  assumes "\<And>s s'. map_sum id g (F s) = map_sum id g (F s')" and "F s = Inr s1"
  shows "\<exists>s2. F s1 = Inr s2 \<and> g s2 = g s1"
proof -
  from assms(1) [of s1 s] assms(2) have "map_sum id g (F s1) = Inr (g s1)" by simp
  then show ?thesis by (cases "F s1") auto
qed

lemma u_numpy_nodes: "u_numpy (two_nodes ! 0) = 1" "u_numpy (two_nodes ! 1) = 1"
  by (simp_all add: u_numpy_def two_nodes_def)

lemma sample_infinity_run:
  "error_infinity nodal_library 0 (Callable fst) sample_store
     = Inr (4, sample_store @ [\<lparr>function_space = unit_space, x_array = [[0, 1]]\<rparr>])"
proof -
  have u: "0 < length sample_store" by (simp add: sample_store_def)
  have V: "function_space (sample_store ! 0) = unit_space" by (simp add: sample_store_def)
  show ?thesis
    unfolding error_infinity_eq [OF u] V
    by (simp add: nodal_simps nodal_values_def exact_interpolant_def nodal_coefficients
        unit_space_def sample_store_def two_nodes_def allreduce_def abs_difference_max_def
        np_binop_def np_max_def)
qed

lemma nodal_poisson_solution:
  "poisson_solution nodal_library 2 1 =
     Inr (\<lparr>function_space = square2_space, x_array = [[1, 1]]\<rparr>,
          \<lparr>function_space = square2_space, x_array = [[1, 1]]\<rparr>,
          Expr (u_ufl (SpatialCoordinate \<lparr>comm_size = 1, nx = 2, ny = 2\<rparr>)))"
  by (simp add: poisson_solution_def create_unit_square_def FunctionSpace_def nodal_library_def
      nodal_values_def coefficients_def square2_space_def upt_rec numeral_2_eq_2 u_numpy_nodes [simplified])

lemma nodal_L2_value:
  "map_sum id fst (L2_value nodal_library \<lparr>function_space = square2_space, x_array = [[1, 1]]\<rparr>
      (Callable u_numpy) degree_raise_default) = Inr (Fin 0)"
  by (simp add: L2_value_def FunctionSpace_def nodal_simps nodal_library_def [THEN arg_cong [of _ _ function_space_error]]
      nodal_values_def exact_interpolant_def L2_objects_def nodal_coefficients square2_space_def
      degree_raise_default_def allreduce_def np_add_finite np_sqrt_nonneg u_numpy_nodes [simplified])

lemma nodal_infinity_value:
  "map_sum id (Fin \<circ> fst) (infinity_value nodal_library \<lparr>function_space = square2_space, x_array = [[1, 1]]\<rparr>
      (Callable u_numpy)) = Inr (Fin 0)"
  by (simp add: infinity_value_def nodal_simps nodal_values_def exact_interpolant_def
      nodal_coefficients square2_space_def allreduce_def abs_difference_max_def np_binop_def
      np_max_def u_numpy_nodes [simplified])

lemma sample_two: "store_sample ([Fin 0], [Fin 0]) 0 E 2 = Inr ([E], [Fin (1 / 2)])"
  by (simp add: store_sample_def setitem_def py_truediv_def float_of_int_def np_div_finite)

lemma nodal_study_L2:
  "\<exists>st1. study_L2 nodal_library 1 [2] empty_notebook = Inr st1"
proof -
  have "map_sum id samples (study_L2 nodal_library 1 [2] empty_notebook) = Inr ([Fin 0], [Fin (1 / 2)])"
    unfolding study_L2_samples
    by (simp add: nodal_poisson_solution nodal_L2_value sample_two)
  then show ?thesis by (cases "study_L2 nodal_library 1 [2] empty_notebook") auto
qed

lemma nodal_study_infinity:
  "\<exists>st1. study_infinity nodal_library 1 [2] empty_notebook = Inr st1"
proof -
  have "map_sum id samples (study_infinity nodal_library 1 [2] empty_notebook) = Inr ([Fin 0], [Fin (1 / 2)])"
    unfolding study_infinity_samples
    by (simp add: nodal_poisson_solution nodal_infinity_value sample_two)
  then show ?thesis by (cases "study_infinity nodal_library 1 [2] empty_notebook") auto
qed

subsection \<open>Determinism\<close>

text \<open>
  C8: the library being a function of its arguments (a deterministic oracle), a second
  call of \<^verbatim>\<open>error_infinity\<close> or of \<^verbatim>\<open>error_L2\<close> with the same arguments, made in the store
  the first call left, returns the same value: the calls create new functions and leave
  their argument as it was.  Two runs of a study, from any two states of the notebook,
  end in the same exception or in the same arrays \<open>Es\<close> and \<open>hs\<close>; in particular a run
  repeated after itself reproduces both arrays.
\<close>

theorem norms_and_studies_deterministic:
  "(u < length \<sigma> \<and> error_infinity lib u u_ex \<sigma> = Inr (v, \<sigma>1) \<longrightarrow>
      (\<exists>\<sigma>2. error_infinity lib u u_ex \<sigma>1 = Inr (v, \<sigma>2))) \<and>
   (u < length \<sigma> \<and> error_L2 lib u u_ex degree_raise \<sigma> = Inr (w, \<sigma>1') \<longrightarrow>
      (\<exists>\<sigma>2. error_L2 lib u u_ex degree_raise \<sigma>1' = Inr (w, \<sigma>2))) \<and>
   map_sum id samples (study_L2 lib p xs st) = map_sum id samples (study_L2 lib p xs st') \<and>
   map_sum id samples (study_infinity lib p xs st) = map_sum id samples (study_infinity lib p xs st') \<and>
   (study_L2 lib p xs st = Inr st1 \<longrightarrow>
      (\<exists>st2. study_L2 lib p xs st1 = Inr st2 \<and> samples st2 = samples st1)) \<and>
   (study_infinity lib p xs st = Inr st1' \<longrightarrow>
      (\<exists>st2. study_infinity lib p xs st1' = Inr st2 \<and> samples st2 = samples st1'))"
proof (intro conjI impI)
  assume a: "u < length \<sigma> \<and> error_infinity lib u u_ex \<sigma> = Inr (v, \<sigma>1)"
  then obtain objs where o: "infinity_value lib (\<sigma> ! u) u_ex = Inr (v, objs)" "\<sigma>1 = \<sigma> @ objs"
    by (auto simp: error_infinity_value split: sum.splits)
  have "u < length \<sigma>1" "\<sigma>1 ! u = \<sigma> ! u" using a o by (simp_all add: nth_append)
  then show "\<exists>\<sigma>2. error_infinity lib u u_ex \<sigma>1 = Inr (v, \<sigma>2)"
    using o by (simp add: error_infinity_value)
next
  assume a: "u < length \<sigma> \<and> error_L2 lib u u_ex degree_raise \<sigma> = Inr (w, \<sigma>1')"
  then obtain objs where o: "L2_value lib (\<sigma> ! u) u_ex degree_raise = Inr (w, objs)" "\<sigma>1' = \<sigma> @ objs"
    by (auto simp: error_L2_value split: sum.splits)
  have "u < length \<sigma>1'" "\<sigma>1' ! u = \<sigma> ! u" using a o by (simp_all add: nth_append)
  then show "\<exists>\<sigma>2. error_L2 lib u u_ex degree_raise \<sigma>1' = Inr (w, \<sigma>2)"
    using o by (simp add: error_L2_value)
next
  show "map_sum id samples (study_L2 lib p xs st) = map_sum id samples (study_L2 lib p xs st')"
    by (simp only: study_L2_samples)
  show "map_sum id samples (study_infinity lib p xs st) = map_sum id samples (study_infinity lib p xs st')"
    by (simp only: study_infinity_samples)
next
  assume "study_L2 lib p xs st = Inr st1"
  then show "\<exists>st2. study_L2 lib p xs st1 = Inr st2 \<and> samples st2 = samples st1"
    by (rule again_Inr [rotated]) (simp only: study_L2_samples)
next
  assume "study_infinity lib p xs st = Inr st1'"
  then show "\<exists>st2. study_infinity lib p xs st1' = Inr st2 \<and> samples st2 = samples st1'"
    by (rule again_Inr [rotated]) (simp only: study_infinity_samples)
qed

theorem norms_and_studies_deterministic_witness:
  "(\<exists>\<sigma>1. 0 < length sample_store \<and>
      error_infinity nodal_library 0 (Callable fst) sample_store = Inr (4, \<sigma>1) \<and>
      (\<exists>\<sigma>2. error_infinity nodal_library 0 (Callable fst) \<sigma>1 = Inr (4, \<sigma>2))) \<and>
   (\<exists>\<sigma>1. error_L2 nodal_library 0 (Callable fst) 3 sample_store = Inr (Fin 5, \<sigma>1) \<and>
      (\<exists>\<sigma>2. error_L2 nodal_library 0 (Callable fst) 3 \<sigma>1 = Inr (Fin 5, \<sigma>2))) \<and>
   (\<exists>st1. study_L2 nodal_library 1 [2] empty_notebook = Inr st1 \<and>
      (\<exists>st2. study_L2 nodal_library 1 [2] st1 = Inr st2 \<and> samples st2 = samples st1)) \<and>
   (\<exists>st1. study_infinity nodal_library 1 [2] empty_notebook = Inr st1 \<and>
      (\<exists>st2. study_infinity nodal_library 1 [2] st1 = Inr st2 \<and> samples st2 = samples st1))"
proof -
  have u: "0 < length sample_store" by (simp add: sample_store_def)
  obtain s1 where s1: "study_L2 nodal_library 1 [2] empty_notebook = Inr s1"
    using nodal_study_L2 by blast
  obtain s1' where s1': "study_infinity nodal_library 1 [2] empty_notebook = Inr s1'"
    using nodal_study_infinity by blast
  from norms_and_studies_deterministic
    [of 0 sample_store nodal_library "Callable fst" 4 _ 3 "Fin 5" _ 1 "[2]" empty_notebook empty_notebook s1 s1']
    u sample_infinity_run sample_L2_run s1 s1'
  show ?thesis by blast
qed

subsection \<open>The exact solution that the solver returns is not used\<close>

lemma convergence_loop_replace_exact:
  assumes "observed st1 = observed st2"
  shows "map_sum id observed (convergence_loop (replace_exact X solve) nrm ps st1)
       = map_sum id observed (convergence_loop solve nrm ps st2)"
  using assms
proof (induction ps arbitrary: st1 st2)
  case Nil
  then show ?case by simp
next
  case (Cons iN ps)
  obtain i N where iN: "iN = (i, N)" by (cases iN)
  from Cons.prems have h: "nb_heap st1 = nb_heap st2" "nb_Es st1 = nb_Es st2" "nb_hs st1 = nb_hs st2"
    by (simp_all add: observed_def)
  show ?case
  proof (cases "solve N (nb_heap st2)")
    case (Inl e)
    then show ?thesis using h by (simp add: iN replace_exact_def)
  next
    case (Inr r)
    obtain a ue \<sigma>1 where r: "r = ((a, ue), \<sigma>1)" by (metis surj_pair)
    show ?thesis
    proof (cases "nrm a \<sigma>1")
      case (Inl e)
      then show ?thesis using h Inr r by (simp add: iN replace_exact_def)
    next
      case nr: (Inr q)
      obtain E \<sigma>2 where q: "q = (E, \<sigma>2)" by (cases q)
      show ?thesis
      proof (cases "store_sample (nb_Es st2, nb_hs st2) i E N")
        case (Inl e)
        then show ?thesis using h Inr r nr q by (simp add: iN replace_exact_def)
      next
        case sm: (Inr Eh)
        obtain Es' hs' where Eh: "Eh = (Es', hs')" by (cases Eh)
        have "observed (st1\<lparr>nb_heap := \<sigma>2, nb_uh := Some a, nb_u_ex := Some X,
                 nb_Es := Es', nb_hs := hs'\<rparr>)
            = observed (st2\<lparr>nb_heap := \<sigma>2, nb_uh := Some a, nb_u_ex := Some ue,
                 nb_Es := Es', nb_hs := hs'\<rparr>)"
          by (simp add: observed_def)
        from Cons.IH [OF this] show ?thesis
          using h Inr r nr q sm Eh by (simp add: iN replace_exact_def)
      qed
    qed
  qed
qed

lemma store_sample_Es:
  "store_sample (Es, hs) i E N = Inr (Es', hs') \<Longrightarrow> i < length Es \<and> Es' = Es[i := E]"
  by (auto simp: store_sample_def setitem_def split: sum.splits if_splits)

lemma convergence_loop_entries:
  assumes "convergence_loop solve nrm (enumerate k xs) st = Inr st'"
  shows "length (nb_Es st') = length (nb_Es st) \<and>
         (\<forall>m<k. nb_Es st' ! m = nb_Es st ! m) \<and>
         (\<forall>j<length xs. \<exists>\<sigma> a ue \<sigma>1 \<sigma>2.
            solve (xs ! j) \<sigma> = Inr ((a, ue), \<sigma>1) \<and> nrm a \<sigma>1 = Inr (nb_Es st' ! (k + j), \<sigma>2))"
  using assms
proof (induction xs arbitrary: k st)
  case Nil
  then show ?case by simp
next
  case (Cons N xs)
  from Cons.prems obtain a ue \<sigma>1 where
    s: "solve N (nb_heap st) = Inr ((a, ue), \<sigma>1)"
    by (auto split: sum.splits)
  from Cons.prems s obtain E \<sigma>2 where n: "nrm a \<sigma>1 = Inr (E, \<sigma>2)"
    by (auto split: sum.splits)
  from Cons.prems s n obtain Es' hs' where
    sm: "store_sample (nb_Es st, nb_hs st) k E N = Inr (Es', hs')"
    by (auto split: sum.splits)
  let ?st1 = "st\<lparr>nb_heap := \<sigma>2, nb_uh := Some a, nb_u_ex := Some ue, nb_Es := Es', nb_hs := hs'\<rparr>"
  from Cons.prems s n sm have rest: "convergence_loop solve nrm (enumerate (Suc k) xs) ?st1 = Inr st'"
    by simp
  from store_sample_Es [OF sm] have k: "k < length (nb_Es st)" and Es': "Es' = (nb_Es st)[k := E]"
    by simp_all
  from Cons.IH [OF rest] have
    len: "length (nb_Es st') = length Es'"
    and old: "\<forall>m<Suc k. nb_Es st' ! m = Es' ! m"
    and new: "\<forall>j<length xs. \<exists>\<sigma> a ue \<sigma>1 \<sigma>2.
        solve (xs ! j) \<sigma> = Inr ((a, ue), \<sigma>1) \<and> nrm a \<sigma>1 = Inr (nb_Es st' ! (Suc k + j), \<sigma>2)"
    by simp_all
  have here: "nb_Es st' ! k = E" using old k Es' by simp
  have "\<exists>\<sigma> a ue \<sigma>1 \<sigma>2.
      solve ((N # xs) ! j) \<sigma> = Inr ((a, ue), \<sigma>1) \<and> nrm a \<sigma>1 = Inr (nb_Es st' ! (k + j), \<sigma>2)"
    if j: "j < length (N # xs)" for j
  proof (cases j)
    case 0
    from s n here have "solve ((N # xs) ! 0) (nb_heap st) = Inr ((a, ue), \<sigma>1) \<and>
        nrm a \<sigma>1 = Inr (nb_Es st' ! (k + 0), \<sigma>2)"
      by simp
    then show ?thesis unfolding 0 by blast
  next
    case (Suc j')
    with j new show ?thesis by simp
  qed
  moreover have "\<forall>m<k. nb_Es st' ! m = nb_Es st ! m" using old Es' by simp
  moreover have "length (nb_Es st') = length (nb_Es st)" using len Es' by simp
  ultimately show ?case by blast
qed

lemma convergence_study_entries:
  assumes "convergence_study solve nrm xs st = Inr st'"
  shows "length (nb_Es st') = length xs \<and>
         (\<forall>i<length xs. \<exists>\<sigma> a ue \<sigma>1 \<sigma>2.
            solve (xs ! i) \<sigma> = Inr ((a, ue), \<sigma>1) \<and> nrm a \<sigma>1 = Inr (nb_Es st' ! i, \<sigma>2))"
  using convergence_loop_entries [OF assms [unfolded convergence_study_def]] by simp

lemma solve_poisson_exact:
  assumes "solve_poisson lib N p \<sigma> = Inr ((a, ue), \<sigma>')"
  shows "ue = Expr (u_ufl (SpatialCoordinate \<lparr>comm_size = world_size lib, nx = N, ny = N\<rparr>))"
  using assms
  by (auto simp: solve_poisson_value poisson_solution_def create_unit_square_def
      split: sum.splits option.splits)

text \<open>
  C10: in a study that returns, the array \<open>Es\<close> has an entry for every \<open>N\<close> of the list, and
  entry \<open>i\<close> is the value of \<^verbatim>\<open>error_L2(uh, u_numpy)\<close>, or of \<^verbatim>\<open>error_infinity(uh, u_numpy)\<close> in
  the study of the infinity norm, for the function \<open>uh\<close> that \<^verbatim>\<open>solve_poisson\<close> returned for
  \<open>N = Ns[i]\<close>, called in the store that \<^verbatim>\<open>solve_poisson\<close> left.  The second component of
  what \<^verbatim>\<open>solve_poisson\<close> returned there is the UFL expression \<^verbatim>\<open>u_ufl(x)\<close>, another object than
  \<^verbatim>\<open>u_numpy\<close>.  It is only stored in the variable \<^verbatim>\<open>u_ex\<close>: with any other object \<open>X\<close>
  returned in its place, a study ends in the same exception or with the same store, the
  same \<open>Es\<close> and \<open>hs\<close> and the same \<open>uh\<close>.
\<close>

theorem studies_use_u_numpy:
  "(study_L2 lib p xs st = Inr st' \<longrightarrow>
      length (nb_Es st') = length xs \<and>
      (\<forall>i<length xs. \<exists>\<sigma> a ue \<sigma>1 \<sigma>2.
         solve_poisson lib (xs ! i) p \<sigma> = Inr ((a, ue), \<sigma>1) \<and>
         error_L2 lib a (Callable u_numpy) degree_raise_default \<sigma>1 = Inr (nb_Es st' ! i, \<sigma>2) \<and>
         ue = Expr (u_ufl (SpatialCoordinate \<lparr>comm_size = world_size lib, nx = xs ! i, ny = xs ! i\<rparr>)) \<and>
         ue \<noteq> Callable u_numpy)) \<and>
   (study_infinity lib p xs st = Inr st'' \<longrightarrow>
      length (nb_Es st'') = length xs \<and>
      (\<forall>i<length xs. \<exists>\<sigma> a ue \<sigma>1 \<sigma>2 E.
         solve_poisson lib (xs ! i) p \<sigma> = Inr ((a, ue), \<sigma>1) \<and>
         error_infinity lib a (Callable u_numpy) \<sigma>1 = Inr (E, \<sigma>2) \<and> nb_Es st'' ! i = Fin E \<and>
         ue = Expr (u_ufl (SpatialCoordinate \<lparr>comm_size = world_size lib, nx = xs ! i, ny = xs ! i\<rparr>)) \<and>
         ue \<noteq> Callable u_numpy)) \<and>
   map_sum id observed (study_L2 lib p xs st) =
     map_sum id observed
       (convergence_study (replace_exact X (\<lambda>N. solve_poisson lib N p)) (norm_L2 lib) xs st) \<and>
   map_sum id observed (study_infinity lib p xs st) =
     map_sum id observed
       (convergence_study (replace_exact X (\<lambda>N. solve_poisson lib N p)) (norm_infinity lib) xs st)"
proof (intro conjI impI)
  assume run: "study_L2 lib p xs st = Inr st'"
  note en = convergence_study_entries [OF run [unfolded study_L2_def]]
  from en show "length (nb_Es st') = length xs" by simp
  show "\<forall>i<length xs. \<exists>\<sigma> a ue \<sigma>1 \<sigma>2.
         solve_poisson lib (xs ! i) p \<sigma> = Inr ((a, ue), \<sigma>1) \<and>
         error_L2 lib a (Callable u_numpy) degree_raise_default \<sigma>1 = Inr (nb_Es st' ! i, \<sigma>2) \<and>
         ue = Expr (u_ufl (SpatialCoordinate \<lparr>comm_size = world_size lib, nx = xs ! i, ny = xs ! i\<rparr>)) \<and>
         ue \<noteq> Callable u_numpy"
  proof (intro allI impI)
    fix i assume "i < length xs"
    with en obtain \<sigma> a ue \<sigma>1 \<sigma>2 where
      s: "solve_poisson lib (xs ! i) p \<sigma> = Inr ((a, ue), \<sigma>1)"
      and n: "norm_L2 lib a \<sigma>1 = Inr (nb_Es st' ! i, \<sigma>2)"
      by blast
    from solve_poisson_exact [OF s] have
      ue: "ue = Expr (u_ufl (SpatialCoordinate \<lparr>comm_size = world_size lib, nx = xs ! i, ny = xs ! i\<rparr>))" .
    then have "ue \<noteq> Callable u_numpy" by simp
    with s n ue show "\<exists>\<sigma> a ue \<sigma>1 \<sigma>2.
         solve_poisson lib (xs ! i) p \<sigma> = Inr ((a, ue), \<sigma>1) \<and>
         error_L2 lib a (Callable u_numpy) degree_raise_default \<sigma>1 = Inr (nb_Es st' ! i, \<sigma>2) \<and>
         ue = Expr (u_ufl (SpatialCoordinate \<lparr>comm_size = world_size lib, nx = xs ! i, ny = xs ! i\<rparr>)) \<and>
         ue \<noteq> Callable u_numpy"
      unfolding norm_L2_def by blast
  qed
next
  assume run: "study_infinity lib p xs st = Inr st''"
  note en = convergence_study_entries [OF run [unfolded study_infinity_def]]
  from en show "length (nb_Es st'') = length xs" by simp
  show "\<forall>i<length xs. \<exists>\<sigma> a ue \<sigma>1 \<sigma>2 E.
         solve_poisson lib (xs ! i) p \<sigma> = Inr ((a, ue), \<sigma>1) \<and>
         error_infinity lib a (Callable u_numpy) \<sigma>1 = Inr (E, \<sigma>2) \<and> nb_Es st'' ! i = Fin E \<and>
         ue = Expr (u_ufl (SpatialCoordinate \<lparr>comm_size = world_size lib, nx = xs ! i, ny = xs ! i\<rparr>)) \<and>
         ue \<noteq> Callable u_numpy"
  proof (intro allI impI)
    fix i assume "i < length xs"
    with en obtain \<sigma> a ue \<sigma>1 \<sigma>2 where
      s: "solve_poisson lib (xs ! i) p \<sigma> = Inr ((a, ue), \<sigma>1)"
      and n: "norm_infinity lib a \<sigma>1 = Inr (nb_Es st'' ! i, \<sigma>2)"
      by blast
    from n obtain E where
      E: "error_infinity lib a (Callable u_numpy) \<sigma>1 = Inr (E, \<sigma>2)" "nb_Es st'' ! i = Fin E"
      unfolding norm_infinity_def by (auto split: sum.splits)
    from solve_poisson_exact [OF s] have
      ue: "ue = Expr (u_ufl (SpatialCoordinate \<lparr>comm_size = world_size lib, nx = xs ! i, ny = xs ! i\<rparr>))" .
    then have "ue \<noteq> Callable u_numpy" by simp
    with s E ue show "\<exists>\<sigma> a ue \<sigma>1 \<sigma>2 E.
         solve_poisson lib (xs ! i) p \<sigma> = Inr ((a, ue), \<sigma>1) \<and>
         error_infinity lib a (Callable u_numpy) \<sigma>1 = Inr (E, \<sigma>2) \<and> nb_Es st'' ! i = Fin E \<and>
         ue = Expr (u_ufl (SpatialCoordinate \<lparr>comm_size = world_size lib, nx = xs ! i, ny = xs ! i\<rparr>)) \<and>
         ue \<noteq> Callable u_numpy"
      by blast
  qed
next
  show "map_sum id observed (study_L2 lib p xs st) =
     map_sum id observed
       (convergence_study (replace_exact X (\<lambda>N. solve_poisson lib N p)) (norm_L2 lib) xs st)"
    unfolding study_L2_def convergence_study_def
    by (rule convergence_loop_replace_exact [symmetric]) simp
  show "map_sum id observed (study_infinity lib p xs st) =
     map_sum id observed
       (convergence_study (replace_exact X (\<lambda>N. solve_poisson lib N p)) (norm_infinity lib) xs st)"
    unfolding study_infinity_def convergence_study_def
    by (rule convergence_loop_replace_exact [symmetric]) simp
qed

theorem studies_use_u_numpy_witness:
  "(\<exists>st' \<sigma> a ue \<sigma>1 \<sigma>2.
      study_L2 nodal_library 1 [2] empty_notebook = Inr st' \<and> length (nb_Es st') = 1 \<and>
      solve_poisson nodal_library 2 1 \<sigma> = Inr ((a, ue), \<sigma>1) \<and>
      error_L2 nodal_library a (Callable u_numpy) degree_raise_default \<sigma>1 = Inr (nb_Es st' ! 0, \<sigma>2) \<and>
      ue = Expr (u_ufl (SpatialCoordinate \<lparr>comm_size = 1, nx = 2, ny = 2\<rparr>)) \<and>
      ue \<noteq> Callable u_numpy) \<and>
   (\<exists>st'' \<sigma> a ue \<sigma>1 \<sigma>2 E.
      study_infinity nodal_library 1 [2] empty_notebook = Inr st'' \<and> length (nb_Es st'') = 1 \<and>
      solve_poisson nodal_library 2 1 \<sigma> = Inr ((a, ue), \<sigma>1) \<and>
      error_infinity nodal_library a (Callable u_numpy) \<sigma>1 = Inr (E, \<sigma>2) \<and> nb_Es st'' ! 0 = Fin E \<and>
      ue = Expr (u_ufl (SpatialCoordinate \<lparr>comm_size = 1, nx = 2, ny = 2\<rparr>)) \<and>
      ue \<noteq> Callable u_numpy) \<and>
   map_sum id observed (study_L2 nodal_library 1 [2] empty_notebook) =
     map_sum id observed
       (convergence_study (replace_exact (Other ''None'') (\<lambda>N. solve_poisson nodal_library N 1))
          (norm_L2 nodal_library) [2] empty_notebook) \<and>
   map_sum id observed (study_infinity nodal_library 1 [2] empty_notebook) =
     map_sum id observed
       (convergence_study (replace_exact (Other ''None'') (\<lambda>N. solve_poisson nodal_library N 1))
          (norm_infinity nodal_library) [2] empty_notebook)"
proof -
  obtain s1 where s1: "study_L2 nodal_library 1 [2] empty_notebook = Inr s1"
    using nodal_study_L2 by blast
  obtain s2 where s2: "study_infinity nodal_library 1 [2] empty_notebook = Inr s2"
    using nodal_study_infinity by blast
  note T = studies_use_u_numpy [of nodal_library 1 "[2]" empty_notebook s1 s2 "Other ''None''"]
  have w: "world_size nodal_library = 1" by (simp add: nodal_simps)
  from T s1 have A: "length (nb_Es s1) = 1 \<and>
      (\<exists>\<sigma> a ue \<sigma>1 \<sigma>2.
         solve_poisson nodal_library 2 1 \<sigma> = Inr ((a, ue), \<sigma>1) \<and>
         error_L2 nodal_library a (Callable u_numpy) degree_raise_default \<sigma>1 = Inr (nb_Es s1 ! 0, \<sigma>2) \<and>
         ue = Expr (u_ufl (SpatialCoordinate \<lparr>comm_size = 1, nx = 2, ny = 2\<rparr>)) \<and>
         ue \<noteq> Callable u_numpy)"
    by (simp add: w)
  from T s2 have B: "length (nb_Es s2) = 1 \<and>
      (\<exists>\<sigma> a ue \<sigma>1 \<sigma>2 E.
         solve_poisson nodal_library 2 1 \<sigma> = Inr ((a, ue), \<sigma>1) \<and>
         error_infinity nodal_library a (Callable u_numpy) \<sigma>1 = Inr (E, \<sigma>2) \<and> nb_Es s2 ! 0 = Fin E \<and>
         ue = Expr (u_ufl (SpatialCoordinate \<lparr>comm_size = 1, nx = 2, ny = 2\<rparr>)) \<and>
         ue \<noteq> Callable u_numpy)"
    by (simp add: w)
  from T have C: "map_sum id observed (study_L2 nodal_library 1 [2] empty_notebook) =
     map_sum id observed
       (convergence_study (replace_exact (Other ''None'') (\<lambda>N. solve_poisson nodal_library N 1))
          (norm_L2 nodal_library) [2] empty_notebook)"
    and D: "map_sum id observed (study_infinity nodal_library 1 [2] empty_notebook) =
     map_sum id observed
       (convergence_study (replace_exact (Other ''None'') (\<lambda>N. solve_poisson nodal_library N 1))
          (norm_infinity nodal_library) [2] empty_notebook)"
    by blast+
  from A B C D s1 s2 show ?thesis by blast
qed

end
